theory Spec2Isabelle
  imports Main "HOL-Library.Sublist" "HOL-Library.AList"
begin

section \<open>Python strings\<close>

text \<open>
  A Python \<open>str\<close> is a \<open>string\<close>. The type \<open>char\<close> has 256 values, read here as the code
  points U+0000 to U+00FF; text with code points beyond that range is outside the model.
  Each function below follows the \<open>str\<close> method of the same name on that range.
\<close>

definition isspace :: "char \<Rightarrow> bool" where
  \<comment> \<open>\<open>str.isspace\<close> for one character: the characters \<open>strip()\<close> removes.\<close>
  "isspace c = (c \<in> set [CHR 0x09, CHR 0x0A, CHR 0x0B, CHR 0x0C, CHR 0x0D, CHR 0x1C,
                           CHR 0x1D, CHR 0x1E, CHR 0x1F, CHR 0x20, CHR 0x85, CHR 0xA0])"

definition is_linebreak :: "char \<Rightarrow> bool" where
  \<comment> \<open>The line boundaries of \<open>str.splitlines\<close>.\<close>
  "is_linebreak c = (c \<in> set [CHR 0x0A, CHR 0x0B, CHR 0x0C, CHR 0x0D, CHR 0x1C,
                                CHR 0x1D, CHR 0x1E, CHR 0x85])"

definition strip :: "string \<Rightarrow> string" where
  "strip s = rev (dropWhile isspace (rev (dropWhile isspace s)))"

definition strip_chars :: "string \<Rightarrow> string \<Rightarrow> string" where
  \<comment> \<open>\<open>s.strip(chars)\<close>\<close>
  "strip_chars chars s =
     rev (dropWhile (\<lambda>c. c \<in> set chars) (rev (dropWhile (\<lambda>c. c \<in> set chars) s)))"

definition lower_char :: "char \<Rightarrow> char" where
  "lower_char c =
     (let n = (of_char c :: nat)
      in if (65 \<le> n \<and> n \<le> 90) \<or> (192 \<le> n \<and> n \<le> 222 \<and> n \<noteq> 215)
         then char_of (n + 32) else c)"

definition lower :: "string \<Rightarrow> string" where
  "lower s = map lower_char s"

fun splitlines_from :: "string \<Rightarrow> string \<Rightarrow> string list" where
  \<comment> \<open>The first argument is the current line, reversed.\<close>
  "splitlines_from cur [] = (if cur = [] then [] else [rev cur])"
| "splitlines_from cur (c # cs) =
     (if c = CHR 0x0D then
        (case cs of
           d # ds \<Rightarrow> if d = CHR 0x0A then rev cur # splitlines_from [] ds
                     else rev cur # splitlines_from [] cs
         | [] \<Rightarrow> rev cur # splitlines_from [] cs)
      else if is_linebreak c then rev cur # splitlines_from [] cs
      else splitlines_from (c # cur) cs)"

definition splitlines :: "string \<Rightarrow> string list" where
  "splitlines s = splitlines_from [] s"

fun split_on :: "char \<Rightarrow> string \<Rightarrow> string list" where
  \<comment> \<open>\<open>s.split(sep)\<close> for a one-character separator.\<close>
  "split_on sep [] = [[]]"
| "split_on sep (c # cs) =
     (if c = sep then [] # split_on sep cs
      else (case split_on sep cs of h # t \<Rightarrow> (c # h) # t | [] \<Rightarrow> [[c]]))"

fun split1 :: "char \<Rightarrow> string \<Rightarrow> string list" where
  \<comment> \<open>\<open>s.split(sep, 1)\<close>: one element when there is no separator, two otherwise.\<close>
  "split1 sep [] = [[]]"
| "split1 sep (c # cs) =
     (if c = sep then [[], cs]
      else (case split1 sep cs of h # t \<Rightarrow> (c # h) # t | [] \<Rightarrow> [[c]]))"

fun str_in :: "string \<Rightarrow> string \<Rightarrow> bool" where
  \<comment> \<open>\<open>sub in s\<close>\<close>
  "str_in sub [] = (sub = [])"
| "str_in sub (c # cs) = (prefix sub (c # cs) \<or> str_in sub cs)"

function replace_from :: "string \<Rightarrow> string \<Rightarrow> string \<Rightarrow> string" where
  \<comment> \<open>The scan of \<open>str.replace\<close>: leftmost occurrence first, then on behind it.\<close>
  "replace_from old new [] = []"
| "replace_from old new (c # cs) =
     (if old \<noteq> [] \<and> prefix old (c # cs)
      then new @ replace_from old new (drop (length old) (c # cs))
      else c # replace_from old new cs)"
  by pat_completeness auto
termination
  by (relation "measure (\<lambda>(old, new, s). length s)") auto

definition replace :: "string \<Rightarrow> string \<Rightarrow> string \<Rightarrow> string" where
  \<comment> \<open>\<open>s.replace(old, new)\<close>; an empty \<open>old\<close> matches before every character and at the end.\<close>
  "replace s old new =
     (if old = [] then new @ concat (map (\<lambda>c. c # new) s) else replace_from old new s)"

fun join_str :: "string \<Rightarrow> string list \<Rightarrow> string" where
  \<comment> \<open>\<open>sep.join(xs)\<close>\<close>
  "join_str sep [] = []"
| "join_str sep [x] = x"
| "join_str sep (x # xs) = x @ sep @ join_str sep xs"

fun universal_newlines :: "string \<Rightarrow> string" where
  \<comment> \<open>What a text-mode read does to line endings: CR LF and a lone CR become LF.\<close>
  "universal_newlines [] = []"
| "universal_newlines (c # cs) =
     (if c = CHR 0x0D then
        (case cs of
           d # ds \<Rightarrow> if d = CHR 0x0A then CHR 0x0A # universal_newlines ds
                     else CHR 0x0A # universal_newlines cs
         | [] \<Rightarrow> [CHR 0x0A])
      else c # universal_newlines cs)"

section \<open>The file system, the output and the processes the tool starts\<close>

text \<open>
  The tool works on files below its working directory, prints, and starts the container
  CLI. The state it acts on is a record of the working directory, the file tree and the
  trace of what was printed and executed.

  The file tree is an association list from canonical paths (the list of names from the
  root) to nodes; the root itself and the working directory are directories without an
  entry. A path string is resolved the POSIX way: split at \<open>/\<close>, from the root when it
  starts with \<open>/\<close> and from the working directory otherwise, \<open>.\<close> and the empty name stay,
  \<open>..\<close> goes up, and every name that is followed by more must be a directory. Symbolic
  links, permissions, limits on name lengths and disk space, and text encodings are not
  modelled: a file holds characters, and a text-mode read translates its line endings
  (on POSIX a text-mode write stores the characters as they are). The subclasses of \<open>OSError\<close>
  (\<open>FileNotFoundError\<close>, \<open>IsADirectoryError\<close>, ...) are the one error \<open>OSError\<close>.
\<close>

datatype error = OSError | ValueError | CalledProcessError

datatype node = File string | Dir

type_synonym cpath = "string list"

datatype target = Unresolved | Directory cpath | Entry cpath

datatype event =
    Print string
  | PrintExc string error  \<comment> \<open>a message that ends with the text of an exception\<close>
  | Exec "string list"

record world =
  cwd :: cpath
  files :: "(cpath \<times> node) list"
  trace :: "event list"

fun walk :: "(cpath \<times> node) list \<Rightarrow> cpath \<Rightarrow> string list \<Rightarrow> target" where
  "walk fs cur [] = Directory cur"
| "walk fs cur (c # cs) =
     (if c = [] \<or> c = ''.'' then walk fs cur cs
      else if c = ''..'' then walk fs (butlast cur) cs
      else if cs = [] then Entry (cur @ [c])
      else if map_of fs (cur @ [c]) = Some Dir then walk fs (cur @ [c]) cs
      else Unresolved)"

definition resolve :: "world \<Rightarrow> string \<Rightarrow> target" where
  "resolve w p =
     (if p = [] \<or> CHR 0x00 \<in> set p then Unresolved
      else walk (files w) (if hd p = CHR ''/'' then [] else cwd w) (split_on CHR ''/'' p))"

definition valid_name :: "string \<Rightarrow> bool" where
  \<comment> \<open>The names a directory can hold.\<close>
  "valid_name n = (n \<noteq> [] \<and> n \<noteq> ''.'' \<and> n \<noteq> ''..'' \<and> CHR ''/'' \<notin> set n \<and> CHR 0x00 \<notin> set n)"

definition path_join :: "string \<Rightarrow> string \<Rightarrow> string" where
  \<comment> \<open>\<open>os.path.join(a, b)\<close> of \<open>posixpath\<close>\<close>
  "path_join a b =
     (if b \<noteq> [] \<and> hd b = CHR ''/'' then b
      else if a = [] \<or> last a = CHR ''/'' then a @ b
      else a @ ''/'' @ b)"

definition path_exists :: "world \<Rightarrow> string \<Rightarrow> bool" where
  \<comment> \<open>\<open>os.path.exists\<close>\<close>
  "path_exists w p =
     (case resolve w p of
        Unresolved \<Rightarrow> False
      | Directory d \<Rightarrow> True
      | Entry q \<Rightarrow> map_of (files w) q \<noteq> None)"

definition isfile :: "world \<Rightarrow> string \<Rightarrow> bool" where
  \<comment> \<open>\<open>os.path.isfile\<close>\<close>
  "isfile w p =
     (case resolve w p of
        Entry q \<Rightarrow> (case map_of (files w) q of Some (File c) \<Rightarrow> True | _ \<Rightarrow> False)
      | _ \<Rightarrow> False)"

definition entries_of :: "(cpath \<times> node) list \<Rightarrow> cpath \<Rightarrow> string list" where
  "entries_of fs d =
     remdups (map (\<lambda>kv. last (fst kv))
       (filter (\<lambda>kv. fst kv \<noteq> [] \<and> butlast (fst kv) = d \<and> valid_name (last (fst kv))) fs))"

definition listdir :: "world \<Rightarrow> string \<Rightarrow> error + string list" where
  \<comment> \<open>\<open>os.listdir\<close>\<close>
  "listdir w p =
     (case resolve w p of
        Unresolved \<Rightarrow> Inl OSError
      | Directory d \<Rightarrow> Inr (entries_of (files w) d)
      | Entry q \<Rightarrow> if map_of (files w) q = Some Dir then Inr (entries_of (files w) q)
                   else Inl OSError)"

definition mkdir :: "string \<Rightarrow> world \<Rightarrow> (error + unit) \<times> world" where
  \<comment> \<open>\<open>os.mkdir\<close>\<close>
  "mkdir p w =
     (case resolve w p of
        Entry q \<Rightarrow> if map_of (files w) q = None
                   then (Inr (), w\<lparr>files := AList.update q Dir (files w)\<rparr>)
                   else (Inl OSError, w)
      | _ \<Rightarrow> (Inl OSError, w))"

definition remove_file :: "string \<Rightarrow> world \<Rightarrow> (error + unit) \<times> world" where
  \<comment> \<open>\<open>os.remove\<close>\<close>
  "remove_file p w =
     (case resolve w p of
        Entry q \<Rightarrow> (case map_of (files w) q of
                      Some (File c) \<Rightarrow> (Inr (), w\<lparr>files := AList.delete q (files w)\<rparr>)
                    | _ \<Rightarrow> (Inl OSError, w))
      | _ \<Rightarrow> (Inl OSError, w))"

definition read_bytes :: "world \<Rightarrow> string \<Rightarrow> error + string" where
  "read_bytes w p =
     (case resolve w p of
        Entry q \<Rightarrow> (case map_of (files w) q of Some (File c) \<Rightarrow> Inr c | _ \<Rightarrow> Inl OSError)
      | _ \<Rightarrow> Inl OSError)"

definition read_text :: "world \<Rightarrow> string \<Rightarrow> error + string" where
  \<comment> \<open>\<open>open(p, 'r').read()\<close>: the content, line endings translated.\<close>
  "read_text w p =
     (case read_bytes w p of Inl e \<Rightarrow> Inl e | Inr c \<Rightarrow> Inr (universal_newlines c))"

definition write_text :: "string \<Rightarrow> string \<Rightarrow> world \<Rightarrow> (error + unit) \<times> world" where
  \<comment> \<open>\<open>open(p, 'w').write(data)\<close>; a path with a NUL character is a \<open>ValueError\<close>.\<close>
  "write_text p data w =
     (if CHR 0x00 \<in> set p then (Inl ValueError, w)
      else case resolve w p of
        Entry q \<Rightarrow> if map_of (files w) q = Some Dir then (Inl OSError, w)
                   else (Inr (), w\<lparr>files := AList.update q (File data) (files w)\<rparr>)
      | _ \<Rightarrow> (Inl OSError, w))"

definition copyfile :: "string \<Rightarrow> string \<Rightarrow> world \<Rightarrow> (error + unit) \<times> world" where
  \<comment> \<open>\<open>shutil.copyfile(src, dst)\<close>\<close>
  "copyfile src dst w =
     (case read_bytes w src of Inl e \<Rightarrow> (Inl e, w) | Inr c \<Rightarrow> write_text dst c w)"

definition print :: "string \<Rightarrow> world \<Rightarrow> world" where
  "print s w = w\<lparr>trace := trace w @ [Print s]\<rparr>"

definition print_exc :: "string \<Rightarrow> error \<Rightarrow> world \<Rightarrow> world" where
  \<comment> \<open>\<open>print(f"...: {e}")\<close>\<close>
  "print_exc s e w = w\<lparr>trace := trace w @ [PrintExc s e]\<rparr>"

type_synonym shell = "nat \<Rightarrow> string list \<Rightarrow> string option"

text \<open>
  The container CLI is outside the tool: a \<open>shell\<close> says, for the \<open>n\<close>-th process the tool
  starts and its command line, whether it exits with status zero (and what it printed on
  its standard output) or not (\<open>None\<close>, where \<open>subprocess.run(check=True)\<close> raises).
\<close>

definition executed :: "world \<Rightarrow> string list list" where
  "executed w = concat (map (\<lambda>e. case e of Exec c \<Rightarrow> [c] | _ \<Rightarrow> []) (trace w))"

definition subprocess_run :: "shell \<Rightarrow> string list \<Rightarrow> world \<Rightarrow> (error + string) \<times> world" where
  "subprocess_run sh cmd w =
     (let w' = w\<lparr>trace := trace w @ [Exec cmd]\<rparr>
      in case sh (length (executed w)) cmd of
           None \<Rightarrow> (Inl CalledProcessError, w')
         | Some out \<Rightarrow> (Inr out, w'))"

section \<open>The tool\<close>

definition env_path :: string where
  "env_path = ''.env''"

definition secrets_path :: string where
  "secrets_path = ''.secrets''"

definition secret_keys :: "string list" where
  "secret_keys = [''KEY'', ''PASSWORD'', ''USERNAME'', ''SALT'', ''TOKEN'', ''SECRET'', ''AUTH'']"

definition run_command :: "shell \<Rightarrow> string list \<Rightarrow> world \<Rightarrow> (error + string) \<times> world" where
  "run_command sh cmd w = subprocess_run sh cmd (print (''Running: '' @ join_str '' '' cmd) w)"

subsection \<open>\<open>prepare_env\<close>\<close>

fun empty_secrets :: "string list \<Rightarrow> world \<Rightarrow> (error + unit) \<times> world" where
  \<comment> \<open>The loop over \<open>os.listdir(secrets_path)\<close>.\<close>
  "empty_secrets [] w = (Inr (), w)"
| "empty_secrets (filename # rest) w =
     (let file_path = path_join secrets_path filename
      in if isfile w file_path
         then (case remove_file file_path w of
                 (Inl e, w') \<Rightarrow> (Inl e, w')
               | (Inr u, w') \<Rightarrow> empty_secrets rest w')
         else empty_secrets rest w)"

definition env_lines :: "string \<Rightarrow> string list" where
  \<comment> \<open>The comprehension that removes comments and empty lines.\<close>
  "env_lines content =
     filter (\<lambda>line. strip line \<noteq> [] \<and> \<not> prefix ''#'' (strip line)) (splitlines content)"

definition has_marker :: "string \<Rightarrow> bool" where
  \<comment> \<open>\<open>any(key in line for key in secret_keys)\<close>\<close>
  "has_marker line = list_ex (\<lambda>key. str_in key line) secret_keys"

definition unpack2 :: "'a list \<Rightarrow> error + ('a \<times> 'a)" where
  \<comment> \<open>\<open>a, b = xs\<close>\<close>
  "unpack2 xs = (case xs of [a, b] \<Rightarrow> Inr (a, b) | _ \<Rightarrow> Inl ValueError)"

definition secret_value :: "string \<Rightarrow> string" where
  \<comment> \<open>\<open>value.strip().strip('"').strip("'")\<close>\<close>
  "secret_value v = strip_chars [CHR 0x27] (strip_chars [CHR 0x22] (strip v))"

fun write_secrets :: "string list \<Rightarrow> world \<Rightarrow> (error + unit) \<times> world" where
  \<comment> \<open>The loop over the lines of the environment file.\<close>
  "write_secrets [] w = (Inr (), w)"
| "write_secrets (line # rest) w =
     (if \<not> has_marker line then write_secrets rest w
      else case unpack2 (split1 CHR ''='' line) of
             Inl e \<Rightarrow> (Inl e, w)
           | Inr (key, val) \<Rightarrow>
               (case write_text (path_join secrets_path (lower key)) (secret_value val) w of
                  (Inl e, w') \<Rightarrow> (Inl e, w')
                | (Inr u, w') \<Rightarrow> write_secrets rest w'))"

definition prepare_env :: "world \<Rightarrow> (error + unit) \<times> world" where
  "prepare_env w0 =
     (case (if \<not> path_exists w0 secrets_path then mkdir secrets_path w0 else (Inr (), w0)) of
        (Inl e, w1) \<Rightarrow> (Inl e, w1)
      | (Inr u, w1) \<Rightarrow>
          (let w2 = print (''Preparing secrets in '' @ secrets_path @ ''...'') w1
           in case listdir w2 secrets_path of
                Inl e \<Rightarrow> (Inl e, w2)
              | Inr names \<Rightarrow>
                  (case empty_secrets names w2 of
                     (Inl e, w3) \<Rightarrow> (Inl e, w3)
                   | (Inr u, w3) \<Rightarrow>
                       (case read_text w3 env_path of
                          Inl e \<Rightarrow> (Inl e, w3)
                        | Inr content \<Rightarrow>
                            (case write_secrets (env_lines content) w3 of
                               (Inl e, w4) \<Rightarrow> (Inl e, w4)
                             | (Inr u, w4) \<Rightarrow> (Inr (), print ''Secrets prepared.'' w4))))))"

subsection \<open>\<open>docker_compose\<close> and the phases that use it\<close>

fun add_compose_files :: "string list \<Rightarrow> string list \<Rightarrow> world \<Rightarrow> string list \<times> world" where
  \<comment> \<open>The loop over \<open>compose_files\<close>.\<close>
  "add_compose_files cmd [] w = (cmd, w)"
| "add_compose_files cmd (file # rest) w =
     (if path_exists w file
      then add_compose_files (cmd @ [''-f'', file]) rest w
      else add_compose_files cmd rest
             (print (''Warning: Docker Compose file '' @ file @
                     '' does not exist and will be skipped.'') w))"

definition docker_compose ::
  "string option \<Rightarrow> string option \<Rightarrow> string option \<Rightarrow> string list \<Rightarrow> string \<Rightarrow> world
     \<Rightarrow> string list \<times> world" where
  "docker_compose project profile environment compose_files env_file w =
     (let cmd = [''docker'', ''compose''];
          cmd = (case project of None \<Rightarrow> cmd | Some p \<Rightarrow> cmd @ [''-p'', p]);
          cmd = cmd @ [''--env-file'', env_file];
          cmd = (case profile of
                   None \<Rightarrow> cmd
                 | Some p \<Rightarrow> if p \<noteq> [] \<and> p \<noteq> ''None'' then cmd @ [''--profile'', p] else cmd);
          cmd = cmd @ [''-f'', ''docker-compose.yml'', ''-f'', ''docker-compose.override.yml''];
          cmd = (case environment of
                   None \<Rightarrow> cmd
                 | Some e \<Rightarrow>
                     if e \<noteq> []
                     then cmd @ [''-f'', path_join ''local-ai-packaged''
                                           (''docker-compose.override.'' @ e @ ''.yml'')]
                     else cmd)
      in add_compose_files cmd compose_files w)"

definition stop_existing_containers ::
  "shell \<Rightarrow> string option \<Rightarrow> string option \<Rightarrow> world \<Rightarrow> (error + unit) \<times> world" where
  "stop_existing_containers sh project profile w =
     (let w1 = print (''Stopping and removing existing containers for the unified project '' @
                      [CHR 0x27] @ ''insights-lm'' @ [CHR 0x27] @ ''...'') w;
          (cmd, w2) = docker_compose None profile None [] ''.env'' w1
      in case run_command sh (cmd @ [''down'']) w2 of
           (Inl e, w3) \<Rightarrow> (Inl e, w3)
         | (Inr r, w3) \<Rightarrow> (Inr (), w3))"

fun pull_each :: "shell \<Rightarrow> string list \<Rightarrow> world \<Rightarrow> (error + unit) \<times> world" where
  \<comment> \<open>The loop of \<open>pull_docker_images\<close>.\<close>
  "pull_each sh [] w = (Inr (), w)"
| "pull_each sh (compose_file # rest) w =
     (let w1 = print (''Pulling latest images for '' @ compose_file @ ''...'') w
      in case run_command sh [''docker'', ''compose'', ''-p'', ''insights-lm'', ''--env-file'',
                              ''.env'', ''-f'', compose_file, ''pull''] w1 of
           (Inl e, w2) \<Rightarrow> (Inl e, w2)
         | (Inr r, w2) \<Rightarrow> pull_each sh rest w2)"

definition pull_docker_images ::
  "shell \<Rightarrow> string list \<Rightarrow> bool \<Rightarrow> world \<Rightarrow> (error + unit) \<times> world" where
  "pull_docker_images sh compose_files update w =
     (case subprocess_run sh [''docker'', ''image'', ''ls'', ''ollama/ollama:latest''] w of
        (Inl e, w1) \<Rightarrow> (Inl e, w1)
      | (Inr stdout, w1) \<Rightarrow>
          if str_in ''ollama/ollama:latest'' stdout \<and> \<not> update
          then (Inr (), print ''Images already present, skipping pull.'' w1)
          else pull_each sh compose_files w1)"

definition generate_yml ::
  "shell \<Rightarrow> string option \<Rightarrow> string option \<Rightarrow> string option \<Rightarrow> string list \<Rightarrow> world
     \<Rightarrow> (error + string) \<times> world" where
  "generate_yml sh project profile environment compose_files w =
     (let w1 = print ''Generating combined docker-compose.yml...'' w;
          (cmd, w2) = docker_compose project profile environment compose_files ''.env'' w1
      in run_command sh (cmd @ [''config'']) w2)"

definition start_insights_lm ::
  "shell \<Rightarrow> string option \<Rightarrow> string option \<Rightarrow> string option \<Rightarrow> string list \<Rightarrow> world
     \<Rightarrow> (error + unit) \<times> world" where
  "start_insights_lm sh project profile environment compose_files w =
     (let w1 = print ''Starting Insights LM services...'' w;
          (cmd, w2) = docker_compose project profile environment compose_files ''.env'' w1
      in case run_command sh (cmd @ [''up'', ''-d'']) w2 of
           (Inl e, w3) \<Rightarrow> (Inl e, w3)
         | (Inr r, w3) \<Rightarrow> (Inr (), w3))"

subsection \<open>The search service's settings and the manifest\<close>

text \<open>
  \<open>secrets.token_hex(32)\<close> is the one source of randomness; the key it returns is an
  argument of the model. It is 32 random bytes written as hexadecimal digits.
\<close>

definition token_hex32 :: "string \<Rightarrow> bool" where
  "token_hex32 t = (length t = 64 \<and> list_all (\<lambda>c. c \<in> set ''0123456789abcdef'') t)"

definition generate_searxng_secret_key :: "string \<Rightarrow> world \<Rightarrow> world" where
  "generate_searxng_secret_key random_key w0 =
     (let w1 = print ''Checking SearXNG settings...'' w0;
          settings_path = path_join ''searxng'' ''settings.yml'';
          settings_base_path = path_join ''searxng'' ''settings-base.yml''
      in if \<not> path_exists w1 settings_base_path
         then print (''Warning: SearXNG base settings file not found at '' @ settings_base_path) w1
         else
           case (if \<not> path_exists w1 settings_path
                 then (let w2 = print (''SearXNG settings.yml not found. Creating from '' @
                                       settings_base_path @ ''...'') w1
                       in case copyfile settings_base_path settings_path w2 of
                            (Inl e, w3) \<Rightarrow> (Inl e, print_exc ''Error creating settings.yml: '' e w3)
                          | (Inr u, w3) \<Rightarrow>
                              (Inr (), print (''Created '' @ settings_path @ '' from '' @
                                              settings_base_path) w3))
                 else (Inr (), w1)) of
             (Inl e, w4) \<Rightarrow> w4
           | (Inr u, w4) \<Rightarrow>
               (case read_text w4 settings_path of
                  Inl e \<Rightarrow> print_exc ''Error generating SearXNG secret key: '' e w4
                | Inr content \<Rightarrow>
                    if \<not> str_in ''ultrasecretkey'' content
                    then print ''SearXNG secret key already set in settings.yml, no action needed.'' w4
                    else
                      (let new_content = replace content ''ultrasecretkey'' random_key
                       in case write_text settings_path new_content w4 of
                            (Inl e, w5) \<Rightarrow> print_exc ''Error generating SearXNG secret key: '' e w5
                          | (Inr u, w5) \<Rightarrow>
                              print ''SearXNG secret key generated successfully.'' w5)))"

definition placeholder_present :: "world \<Rightarrow> bool" where
  \<comment> \<open>The first-run detection inside \<open>check_and_fix_docker_compose_for_searxng\<close>.\<close>
  "placeholder_present w =
     (let settings_path = path_join ''searxng'' ''settings.yml''
      in if path_exists w settings_path
         then (case read_text w settings_path of
                 Inl e \<Rightarrow> False
               | Inr text \<Rightarrow> str_in ''ultrasecretkey'' text)
         else False)"

definition cap_drop_active :: string where
  "cap_drop_active = ''cap_drop: - ALL''"

definition cap_drop_commented :: string where
  "cap_drop_commented = ''# cap_drop: - ALL  # Temporarily commented out for first run''"

definition check_and_fix_docker_compose_for_searxng :: "world \<Rightarrow> world" where
  "check_and_fix_docker_compose_for_searxng w =
     (let docker_compose_path = ''docker-compose.yml''
      in if \<not> path_exists w docker_compose_path
         then print (''Warning: Docker Compose file not found at '' @ docker_compose_path) w
         else
           case read_text w docker_compose_path of
             Inl e \<Rightarrow> print_exc ''Error checking/modifying docker-compose.yml for SearXNG: '' e w
           | Inr content \<Rightarrow>
               if placeholder_present w \<and> str_in cap_drop_active content then
                 (let w1 = print (''First run detected for SearXNG. Temporarily removing '' @
                                  [CHR 0x27] @ cap_drop_active @ [CHR 0x27] @ '' directive...'') w;
                      modified_content = replace content cap_drop_active cap_drop_commented
                  in case write_text docker_compose_path modified_content w1 of
                       (Inl e, w2) \<Rightarrow>
                         print_exc ''Error checking/modifying docker-compose.yml for SearXNG: '' e w2
                     | (Inr u, w2) \<Rightarrow>
                         print (''Note: After the first run completes, re-add '' @ [CHR 0x27] @
                                cap_drop_active @ [CHR 0x27] @ '' for security.'') w2)
               else if \<not> placeholder_present w \<and> str_in cap_drop_commented content then
                 (let w1 = print (''SearXNG appears initialized. Re-enabling '' @ [CHR 0x27] @
                                  cap_drop_active @ [CHR 0x27] @ '' directive for security...'') w;
                      modified_content = replace content cap_drop_commented cap_drop_active
                  in case write_text docker_compose_path modified_content w1 of
                       (Inl e, w2) \<Rightarrow>
                         print_exc ''Error checking/modifying docker-compose.yml for SearXNG: '' e w2
                     | (Inr u, w2) \<Rightarrow> w2)
               else w)"

subsection \<open>\<open>parse_args\<close> and \<open>main\<close>\<close>

record args =
  name :: string
  profile :: string
  environment :: string
  compose_files :: "string list"
  config :: bool
  update :: bool

definition parsed :: "args \<Rightarrow> bool" where
  \<comment> \<open>What \<open>parse_args\<close> can return: the two options with \<open>choices\<close>.\<close>
  "parsed a = (profile a \<in> set [''cpu'', ''gpu-nvidia'', ''gpu-amd'', ''none''] \<and>
               environment a \<in> set [''private'', ''public''])"

definition default_args :: args where
  \<comment> \<open>The defaults of \<open>parse_args\<close>.\<close>
  "default_args = \<lparr>name = ''insights-lm'', profile = ''cpu'', environment = ''private'',
                   compose_files = [], config = False, update = False\<rparr>"

definition main :: "shell \<Rightarrow> string \<Rightarrow> args \<Rightarrow> world \<Rightarrow> (error + unit) \<times> world" where
  "main sh random_key a w =
     (if config a then
        (case generate_yml sh (Some (name a)) (Some (profile a)) (Some (environment a))
                (compose_files a) w of
           (Inl e, w1) \<Rightarrow> (Inl e, w1)
         | (Inr yml_content, w1) \<Rightarrow> (Inr (), print yml_content w1))
      else
        case prepare_env w of
          (Inl e, w1) \<Rightarrow> (Inl e, w1)
        | (Inr u, w1) \<Rightarrow>
            (let w2 = generate_searxng_secret_key random_key w1;
                 w3 = check_and_fix_docker_compose_for_searxng w2
             in case stop_existing_containers sh (Some (profile a)) None w3 of
                  (Inl e, w4) \<Rightarrow> (Inl e, w4)
                | (Inr u, w4) \<Rightarrow>
                    (case pull_docker_images sh
                            ([''docker-compose.yml'', ''local-ai-packaged/docker-compose.yml'',
                              ''supabase-insights-lm/docker-compose.yml''] @ compose_files a)
                            (update a) w4 of
                       (Inl e, w5) \<Rightarrow> (Inl e, w5)
                     | (Inr u, w5) \<Rightarrow>
                         start_insights_lm sh (Some (name a)) (Some (profile a))
                           (Some (environment a)) (compose_files a) w5)))"

subsection \<open>Names used in the statements\<close>

definition secrets_dir :: "world \<Rightarrow> cpath" where
  \<comment> \<open>Where \<open>secrets_path\<close> resolves to.\<close>
  "secrets_dir w = cwd w @ [''.secrets'']"

definition settings_file :: "world \<Rightarrow> cpath" where
  \<comment> \<open>Where \<open>searxng/settings.yml\<close> resolves to.\<close>
  "settings_file w = cwd w @ [''searxng'', ''settings.yml'']"

definition manifest_file :: "world \<Rightarrow> cpath" where
  \<comment> \<open>Where \<open>docker-compose.yml\<close> resolves to.\<close>
  "manifest_file w = cwd w @ [''docker-compose.yml'']"

definition preparing :: string where
  \<comment> \<open>The first line \<open>prepare_env\<close> prints.\<close>
  "preparing = ''Preparing secrets in .secrets...''"

definition example_files :: "(cpath \<times> node) list" where
  \<comment> \<open>A project directory \<open>/srv\<close> before the first run, with a stale secret.\<close>
  "example_files =
     [([''srv'', ''.env''], File ''DB_PASSWORD=secr3t\<newline>HOST=localhost\<newline>''),
      ([''srv'', ''.secrets''], Dir),
      ([''srv'', ''.secrets'', ''stale''], File ''old''),
      ([''srv'', ''searxng''], Dir),
      ([''srv'', ''searxng'', ''settings-base.yml''], File ''secret_key: ultrasecretkey\<newline>''),
      ([''srv'', ''searxng'', ''settings.yml''], File ''secret_key: ultrasecretkey\<newline>''),
      ([''srv'', ''docker-compose.yml''], File ''    cap_drop: - ALL\<newline>'')]"

definition example_world :: world where
  "example_world = \<lparr>cwd = [''srv''], files = example_files, trace = []\<rparr>"

definition example_key :: string where
  \<comment> \<open>A key as \<open>secrets.token_hex(32)\<close> returns them.\<close>
  "example_key = ''00112233445566778899aabbccddeeff00112233445566778899aabbccddeeff''"

definition without :: "cpath \<Rightarrow> world \<Rightarrow> world" where
  \<comment> \<open>The same state with one entry missing.\<close>
  "without q w = w\<lparr>files := AList.delete q (files w)\<rparr>"

definition example_initialized :: world where
  \<comment> \<open>The same project after the first run: a key in the settings, the directive commented.\<close>
  "example_initialized =
     \<lparr>cwd = [''srv''],
      files =
        [([''srv'', ''searxng''], Dir),
         ([''srv'', ''searxng'', ''settings.yml''], File ''secret_key: 42\<newline>''),
         ([''srv'', ''docker-compose.yml''],
          File ''    # cap_drop: - ALL  # Temporarily commented out for first run\<newline>'')],
      trace = []\<rparr>"

definition example_value_marker :: world where
  \<comment> \<open>A project whose one setting has a marker in its value only.\<close>
  "example_value_marker =
     \<lparr>cwd = [''srv''],
      files = [([''srv'', ''.env''], File ''HOST=KEYSTONE\<newline>''), ([''srv'', ''.secrets''], Dir)],
      trace = []\<rparr>"

definition pull_command :: "string \<Rightarrow> string list" where
  \<comment> \<open>The command \<open>pull_docker_images\<close> runs for one compose file.\<close>
  "pull_command compose_file =
     [''docker'', ''compose'', ''-p'', ''insights-lm'', ''--env-file'', ''.env'', ''-f'',
      compose_file, ''pull'']"

definition example_shell :: shell where
  \<comment> \<open>A container CLI that fails on the pull for \<open>missing.yml\<close> and on nothing else.\<close>
  "example_shell n cmd = (if cmd = pull_command ''missing.yml'' then None else Some [])"

section \<open>Properties\<close>

subsection \<open>Replacing substrings\<close>

lemma replace_from_miss:
  "\<not> (old \<noteq> [] \<and> prefix old (c # cs))
     \<Longrightarrow> replace_from old new (c # cs) = c # replace_from old new cs"
  by auto

lemma replace_from_hit:
  "old \<noteq> [] \<and> prefix old (c # cs)
     \<Longrightarrow> replace_from old new (c # cs) = new @ replace_from old new (drop (length old) (c # cs))"
  by auto

lemma replace_from_no_completion:
  assumes tok: "\<And>s2 rest. s2 \<noteq> [] \<Longrightarrow> suffix s2 old \<Longrightarrow> \<not> prefix s2 (new @ rest)"
  shows "old = s1 @ s2 \<Longrightarrow> s2 \<noteq> [] \<Longrightarrow> \<not> prefix old (s1 @ s)
           \<Longrightarrow> \<not> prefix s2 (replace_from old new s)"
  using tok
proof (induction old new s arbitrary: s1 s2 rule: replace_from.induct)
  case (1 old new)
  then show ?case by simp
next
  case (2 old new c cs)
  show ?case
  proof (cases "old \<noteq> [] \<and> prefix old (c # cs)")
    case True
    have "suffix s2 old" using "2.prems"(1) by (simp add: suffix_def)
    then have "\<not> prefix s2 (new @ replace_from old new (drop (length old) (c # cs)))"
      using "2.prems"(2,4) by blast
    then show ?thesis using True by simp
  next
    case False
    show ?thesis
    proof
      assume p: "prefix s2 (replace_from old new (c # cs))"
      then have p': "prefix s2 (c # replace_from old new cs)" using False by simp
      then obtain s2' where s2: "s2 = c # s2'" and p'': "prefix s2' (replace_from old new cs)"
        using "2.prems"(2) by (cases s2) auto
      show False
      proof (cases "s2' = []")
        case True
        then have "old = s1 @ [c]" using "2.prems"(1) s2 by simp
        then have "prefix old (s1 @ c # cs)" by (simp add: prefix_def)
        then show False using "2.prems"(3) by simp
      next
        case ne: False
        have "old = (s1 @ [c]) @ s2'" using "2.prems"(1) s2 by simp
        moreover have "\<not> prefix old ((s1 @ [c]) @ cs)" using "2.prems"(3) by simp
        ultimately have "\<not> prefix s2' (replace_from old new cs)"
          using "2.IH"(2)[OF False _ ne] "2.prems"(4) by blast
        then show False using p'' by simp
      qed
    qed
  qed
qed

lemma replace_from_no_prefix:
  assumes ne: "old \<noteq> []"
    and tok: "\<And>s2 rest. s2 \<noteq> [] \<Longrightarrow> suffix s2 old \<Longrightarrow> \<not> prefix s2 (new @ rest)"
  shows "\<not> prefix old (replace_from old new s)"
proof (cases s)
  case Nil
  then show ?thesis using ne by simp
next
  case (Cons c cs)
  show ?thesis
  proof (cases "prefix old (c # cs)")
    case True
    have "\<not> prefix old (new @ replace_from old new (drop (length old) (c # cs)))"
      using tok[OF ne] by simp
    then show ?thesis using True ne Cons by simp
  next
    case False
    have "\<not> prefix old (replace_from old new s)"
    proof (rule replace_from_no_completion[of old new "[]" old s])
      show "old = [] @ old" by simp
      show "old \<noteq> []" by (rule ne)
      show "\<not> prefix old ([] @ s)" using False Cons by simp
    qed (use tok in blast)
    then show ?thesis .
  qed
qed

lemma str_in_append_cases:
  "str_in sub (xs @ ys) \<Longrightarrow> (\<exists>k<length xs. prefix sub (drop k xs @ ys)) \<or> str_in sub ys"
proof (induction xs)
  case Nil
  then show ?case by simp
next
  case (Cons x xs)
  from Cons.prems have "prefix sub (x # xs @ ys) \<or> str_in sub (xs @ ys)" by simp
  then show ?case
  proof
    assume "prefix sub (x # xs @ ys)"
    then have "\<exists>k<length (x # xs). prefix sub (drop k (x # xs) @ ys)"
      by (intro exI[of _ 0]) simp
    then show ?thesis by blast
  next
    assume "str_in sub (xs @ ys)"
    with Cons.IH have "(\<exists>k<length xs. prefix sub (drop k xs @ ys)) \<or> str_in sub ys" by blast
    then show ?thesis
    proof
      assume "\<exists>k<length xs. prefix sub (drop k xs @ ys)"
      then obtain k where "k < length xs" "prefix sub (drop k xs @ ys)" by blast
      then have "Suc k < length (x # xs) \<and> prefix sub (drop (Suc k) (x # xs) @ ys)" by simp
      then show ?thesis by blast
    qed blast
  qed
qed

lemma token_blocks_suffix:
  assumes "last old \<notin> set new" "length old \<le> length new"
  shows "s2 \<noteq> [] \<Longrightarrow> suffix s2 old \<Longrightarrow> \<not> prefix s2 (new @ rest)"
proof
  assume ne: "s2 \<noteq> []" and suf: "suffix s2 old" and pre: "prefix s2 (new @ rest)"
  have "length s2 \<le> length old" using suf by (rule suffix_length_le)
  then have "length s2 \<le> length new" using assms(2) by simp
  then have "prefix s2 new" using pre by (metis prefix_length_prefix prefixI)
  then have "set s2 \<subseteq> set new" by (rule set_mono_prefix)
  moreover have "last s2 = last old" using suf ne by (auto simp: suffix_def)
  ultimately show False using assms(1) ne by (metis last_in_set subsetD)
qed

lemma replace_from_removes:
  assumes ne: "old \<noteq> []" and h: "hd old \<notin> set new" and l: "last old \<notin> set new"
    and len: "length old \<le> length new"
  shows "\<not> str_in old (replace_from old new s)"
  using assms
proof (induction old new s rule: replace_from.induct)
  case (1 old new)
  then show ?case by simp
next
  case (2 old new c cs)
  note tok = token_blocks_suffix[OF "2.prems"(3,4)]
  show ?case
  proof (cases "old \<noteq> [] \<and> prefix old (c # cs)")
    case True
    let ?R = "replace_from old new (drop (length old) (c # cs))"
    have ih: "\<not> str_in old ?R" using "2.IH"(1)[OF True] "2.prems" by blast
    have "\<not> str_in old (new @ ?R)"
    proof
      assume "str_in old (new @ ?R)"
      then have "\<exists>k<length new. prefix old (drop k new @ ?R)"
        using str_in_append_cases ih by blast
      then obtain k where k: "k < length new" and p: "prefix old (drop k new @ ?R)" by blast
      obtain x xs where d: "drop k new = x # xs" using k by (cases "drop k new") auto
      then have "x \<in> set new" by (metis in_set_dropD list.set_intros(1))
      moreover have "hd old = x" using p d "2.prems"(1) by (cases old) auto
      ultimately show False using "2.prems"(2) by simp
    qed
    then show ?thesis using True by simp
  next
    case False
    have ih: "\<not> str_in old (replace_from old new cs)" using "2.IH"(2)[OF False] "2.prems" by blast
    have "\<not> prefix old (replace_from old new (c # cs))"
      using replace_from_no_prefix[OF "2.prems"(1)] tok by blast
    then show ?thesis using ih by (simp only: replace_from_miss[OF False] str_in.simps) simp
  qed
qed

lemma head_blocks_suffix:
  assumes "new \<noteq> []" "hd new \<notin> set old"
  shows "s2 \<noteq> [] \<Longrightarrow> suffix s2 old \<Longrightarrow> \<not> prefix s2 (new @ rest)"
proof
  assume ne: "s2 \<noteq> []" and suf: "suffix s2 old" and pre: "prefix s2 (new @ rest)"
  have "hd s2 = hd new" using pre ne assms(1) by (cases s2; cases new) auto
  moreover have "hd s2 \<in> set old" using suf ne by (metis hd_in_set set_mono_suffix subsetD)
  ultimately show False using assms(2) by simp
qed

lemma replace_from_round_trip:
  assumes a: "A \<noteq> []" and s: "S = p1 # p2 # A @ T" and p1: "p1 \<notin> set A" and p12: "p1 \<noteq> p2"
  shows "replace_from S A (replace_from A S s) = s"
  using assms
proof (induction A S s rule: replace_from.induct)
  case (1 old new)
  then show ?case by simp
next
  case (2 A S c cs)
  have sne: "S \<noteq> []" using "2.prems"(2) by simp
  have "hd S \<notin> set A" using "2.prems"(2,3) by simp
  note tok = head_blocks_suffix[OF sne this]
  show ?case
  proof (cases "A \<noteq> [] \<and> prefix A (c # cs)")
    case True
    let ?X = "replace_from A S (drop (length A) (c # cs))"
    have ih: "replace_from S A ?X = drop (length A) (c # cs)"
      using "2.IH"(1)[OF True] "2.prems" by blast
    have "replace_from S A (S @ ?X) = A @ replace_from S A ?X"
      using sne by (cases S) simp_all
    also have "\<dots> = c # cs" using ih True by (metis append_take_drop_id prefix_def append_eq_conv_conj)
    finally show ?thesis using True by simp
  next
    case False
    let ?X = "replace_from A S cs"
    have ih: "replace_from S A ?X = cs" using "2.IH"(2)[OF False] "2.prems" by blast
    have np: "\<not> prefix S (c # ?X)"
    proof
      assume "prefix S (c # ?X)"
      then have c: "c = p1" and q: "prefix (p2 # A @ T) ?X" using "2.prems"(2) by auto
      show False
      proof (cases cs)
        case Nil
        then show False using q by simp
      next
        case (Cons d ds)
        show False
        proof (cases "prefix A (d # ds)")
          case True
          then have "?X = S @ replace_from A S (drop (length A) (d # ds))"
            using Cons "2.prems"(1) by simp
          then show False using q "2.prems"(2,4) by simp
        next
          case nf: False
          then have "?X = d # replace_from A S ds" using Cons by simp
          then have "prefix (A @ T) (replace_from A S ds)" using q by simp
          then have "prefix A (replace_from A S ds)" by (metis append_prefixD)
          then show False using replace_from_no_prefix[OF "2.prems"(1)] tok by blast
        qed
      qed
    qed
    have "replace_from S A (c # ?X) = c # replace_from S A ?X"
      using np by (intro replace_from_miss) simp
    then show ?thesis using ih by (simp only: replace_from_miss[OF False])
  qed
qed

subsection \<open>Paths, commands and the phases without file changes\<close>

lemma print_fields [simp]:
  "cwd (print s w) = cwd w" "files (print s w) = files w" "trace (print s w) = trace w @ [Print s]"
  "cwd (print_exc s e w) = cwd w" "files (print_exc s e w) = files w"
  "trace (print_exc s e w) = trace w @ [PrintExc s e]"
  by (simp_all add: print_def print_exc_def)

lemma walk_dirs_cong:
  "(\<And>q. (map_of fs' q = Some Dir) = (map_of fs q = Some Dir)) \<Longrightarrow> walk fs' cur cs = walk fs cur cs"
  by (induction cs arbitrary: cur) simp_all

lemma resolve_dirs_cong:
  "cwd w' = cwd w \<Longrightarrow> (\<And>q. (map_of (files w') q = Some Dir) = (map_of (files w) q = Some Dir))
     \<Longrightarrow> resolve w' p = resolve w p"
  using walk_dirs_cong[of "files w'" "files w"] by (simp add: resolve_def)

lemma split_on_plain: "sep \<notin> set s \<Longrightarrow> split_on sep s = [s]"
  by (induction s) auto

lemma split_on_append:
  "sep \<notin> set a \<Longrightarrow> split_on sep (a @ sep # b) = a # split_on sep b"
  by (induction a) auto

lemma resolve_name:
  "valid_name n \<Longrightarrow> resolve w n = Entry (cwd w @ [n])"
  by (cases n) (auto simp: resolve_def valid_name_def split_on_plain)

lemma resolve_in_dir:
  assumes "valid_name d" "valid_name n"
  shows "resolve w (d @ ''/'' @ n) =
           (if map_of (files w) (cwd w @ [d]) = Some Dir then Entry (cwd w @ [d, n]) else Unresolved)"
proof -
  have "split_on CHR ''/'' (d @ CHR ''/'' # n) = [d, n]"
    using assms by (simp add: split_on_append split_on_plain valid_name_def)
  moreover have "hd (d @ CHR ''/'' # n) \<noteq> CHR ''/''" using assms by (cases d) (auto simp: valid_name_def)
  ultimately show ?thesis using assms by (auto simp: resolve_def valid_name_def)
qed

lemma path_join_name: "valid_name d \<Longrightarrow> valid_name n \<Longrightarrow> path_join d n = d @ ''/'' @ n"
  by (cases n; cases d rule: rev_cases) (auto simp: path_join_def valid_name_def)

lemma valid_names [simp]:
  "valid_name ''.env''" "valid_name ''.secrets''" "valid_name ''searxng''"
  "valid_name ''settings.yml''" "valid_name ''settings-base.yml''" "valid_name ''docker-compose.yml''"
  by (simp_all add: valid_name_def)

lemma resolve_print [simp]:
  "resolve (print s w) p = resolve w p" "resolve (print_exc s e w) p = resolve w p"
  "resolve (w\<lparr>trace := t\<rparr>) p = resolve w p"
  by (simp_all add: resolve_def)

lemma path_exists_print [simp]:
  "path_exists (print s w) p = path_exists w p" "path_exists (print_exc s e w) p = path_exists w p"
  "path_exists (w\<lparr>trace := t\<rparr>) p = path_exists w p"
  by (simp_all add: path_exists_def split: target.split)

lemma path_exists_print_fun [simp]: "path_exists (print s w) = path_exists w"
  by (rule ext) simp

lemma add_compose_files_eq:
  "add_compose_files cmd fs w =
     (cmd @ concat (map (\<lambda>f. [''-f'', f]) (filter (path_exists w) fs)),
      w\<lparr>trace := trace w @
           map (\<lambda>f. Print (''Warning: Docker Compose file '' @ f @
                            '' does not exist and will be skipped.''))
               (filter (\<lambda>f. \<not> path_exists w f) fs)\<rparr>)"
proof (induction fs arbitrary: cmd w)
  case Nil
  then show ?case by simp
next
  case (Cons f fs)
  show ?case
  proof (cases "path_exists w f")
    case True
    then show ?thesis by (simp add: Cons.IH)
  next
    case False
    then show ?thesis by (simp add: Cons.IH)
  qed
qed

lemma docker_compose_extra_files:
  "fst (docker_compose project prof env extra env_file w) =
     fst (docker_compose project prof env [] env_file w) @
     concat (map (\<lambda>f. [''-f'', f]) (filter (path_exists w) extra))
   \<and> snd (docker_compose project prof env extra env_file w) =
     w\<lparr>trace := trace w @
          map (\<lambda>f. Print (''Warning: Docker Compose file '' @ f @
                           '' does not exist and will be skipped.''))
              (filter (\<lambda>f. \<not> path_exists w f) extra)\<rparr>"
  by (simp add: docker_compose_def Let_def add_compose_files_eq)

text \<open>
  C10. When \<open>searxng/settings-base.yml\<close> does not exist, \<open>generate_searxng_secret_key\<close>
  prints its two lines and returns: the state is otherwise the one it started in, whatever
  \<open>searxng/settings.yml\<close> holds. The example after the theorem is a project whose runtime
  settings still hold the placeholder, before and after the call.
\<close>

theorem generate_searxng_secret_key_without_base:
  assumes "\<not> path_exists w ''searxng/settings-base.yml''"
  shows "generate_searxng_secret_key random_key w =
           print ''Warning: SearXNG base settings file not found at searxng/settings-base.yml''
             (print ''Checking SearXNG settings...'' w)"
  using assms by (simp add: generate_searxng_secret_key_def Let_def path_join_def)

text \<open>
  C2. The guard of \<open>docker_compose\<close> compares the profile with \<open>None\<close>, and the option parser
  offers \<open>none\<close>: for the profile \<open>none\<close> the command does hold the profile flag,
  \<open>--profile none\<close>.
\<close>

theorem docker_compose_profile_none:
  "fst (docker_compose (Some ''insights-lm'') (Some ''none'') (Some ''private'') [] ''.env'' w) =
     [''docker'', ''compose'', ''-p'', ''insights-lm'', ''--env-file'', ''.env'',
      ''--profile'', ''none'', ''-f'', ''docker-compose.yml'', ''-f'',
      ''docker-compose.override.yml'', ''-f'',
      ''local-ai-packaged/docker-compose.override.private.yml'']"
  by (simp add: docker_compose_def Let_def path_join_def)

lemma executed_append [simp]: "executed (w\<lparr>trace := trace w @ es\<rparr>) = executed w @ concat (map (\<lambda>e. case e of Exec c \<Rightarrow> [c] | _ \<Rightarrow> []) es)"
  by (simp add: executed_def)

lemma executed_print [simp]: "executed (print s w) = executed w" "executed (print_exc s e w) = executed w"
  by (simp_all add: executed_def)

lemma stop_existing_containers_command:
  "executed (snd (stop_existing_containers sh project None w)) =
     executed w @ [[''docker'', ''compose'', ''--env-file'', ''.env'', ''-f'', ''docker-compose.yml'',
                    ''-f'', ''docker-compose.override.yml'', ''down'']]"
  by (simp add: stop_existing_containers_def docker_compose_def Let_def run_command_def
        subprocess_run_def executed_def split: option.split)

lemma docker_compose_print:
  "fst (docker_compose project prof env extra env_file (print s w)) =
   fst (docker_compose project prof env extra env_file w)"
  "files (snd (docker_compose project prof env extra env_file w)) = files w"
  "cwd (snd (docker_compose project prof env extra env_file w)) = cwd w"
  "executed (snd (docker_compose project prof env extra env_file w)) = executed w"
  by (simp_all add: docker_compose_def Let_def add_compose_files_eq executed_def)

lemma run_command_fields:
  "files (snd (run_command sh cmd w)) = files w"
  "cwd (snd (run_command sh cmd w)) = cwd w"
  "executed (snd (run_command sh cmd w)) = executed w @ [cmd]"
  "fst (run_command sh cmd w) =
     (case sh (length (executed w)) cmd of None \<Rightarrow> Inl CalledProcessError | Some out \<Rightarrow> Inr out)"
  by (simp_all add: run_command_def subprocess_run_def Let_def executed_def split: option.split)

text \<open>
  C6. With the config-only flag, \<open>main\<close> leaves the files as they are (the secrets directory,
  the settings of the search service and the manifest among them), and starts one process:
  the command of \<open>docker_compose\<close> for the given options, followed by \<open>config\<close>. When that
  process succeeds, the last thing \<open>main\<close> does is print what the process wrote, the merged
  manifest, and it returns; when it fails, \<open>main\<close> ends with the exception.
\<close>

theorem main_config_only:
  assumes "config a"
  shows "files (snd (main sh random_key a w)) = files w
       \<and> cwd (snd (main sh random_key a w)) = cwd w
       \<and> executed (snd (main sh random_key a w)) =
           executed w @ [fst (docker_compose (Some (name a)) (Some (profile a))
                                (Some (environment a)) (compose_files a) ''.env'' w) @ [''config'']]
       \<and> (case sh (length (executed w))
                 (fst (docker_compose (Some (name a)) (Some (profile a))
                         (Some (environment a)) (compose_files a) ''.env'' w) @ [''config'']) of
            None \<Rightarrow> fst (main sh random_key a w) = Inl CalledProcessError
          | Some out \<Rightarrow> fst (main sh random_key a w) = Inr () \<and>
                        last (trace (snd (main sh random_key a w))) = Print out)"
proof -
  obtain cmd w2 where dc: "docker_compose (Some (name a)) (Some (profile a)) (Some (environment a))
      (compose_files a) ''.env'' (print ''Generating combined docker-compose.yml...'' w) = (cmd, w2)"
    by (cases "docker_compose (Some (name a)) (Some (profile a)) (Some (environment a))
      (compose_files a) ''.env'' (print ''Generating combined docker-compose.yml...'' w)")
  have cmd: "cmd = fst (docker_compose (Some (name a)) (Some (profile a)) (Some (environment a))
      (compose_files a) ''.env'' w)"
    using docker_compose_print(1)[of "Some (name a)" "Some (profile a)" "Some (environment a)"
        "compose_files a" "''.env''" "''Generating combined docker-compose.yml...''" w] dc by simp
  have w2: "files w2 = files w" "cwd w2 = cwd w" "executed w2 = executed w"
    using docker_compose_print(2-4)[of "Some (name a)" "Some (profile a)" "Some (environment a)"
        "compose_files a" "''.env''" "print ''Generating combined docker-compose.yml...'' w"] dc
    by simp_all
  obtain r w3 where rc: "run_command sh (cmd @ [''config'']) w2 = (r, w3)"
    by (cases "run_command sh (cmd @ [''config'']) w2")
  have w3: "files w3 = files w" "cwd w3 = cwd w" "executed w3 = executed w @ [cmd @ [''config'']]"
    using run_command_fields(1-3)[of sh "cmd @ [''config'']" w2] rc w2 by simp_all
  have r: "r = (case sh (length (executed w)) (cmd @ [''config'']) of
                  None \<Rightarrow> Inl CalledProcessError | Some out \<Rightarrow> Inr out)"
    using run_command_fields(4)[of sh "cmd @ [''config'']" w2] rc w2 by simp
  have m: "main sh random_key a w =
             (case r of Inl e \<Rightarrow> (Inl e, w3) | Inr y \<Rightarrow> (Inr (), print y w3))"
    using assms dc rc by (simp add: main_def generate_yml_def Let_def split: sum.split)
  show ?thesis
  proof (cases "sh (length (executed w)) (cmd @ [''config''])")
    case None
    then show ?thesis using m r w3 cmd by simp
  next
    case (Some out)
    then show ?thesis using m r w3 cmd by simp
  qed
qed

subsection \<open>Emptying the secrets directory\<close>

lemma resolve_secrets [simp]: "resolve w secrets_path = Entry (secrets_dir w)"
  by (simp add: secrets_path_def secrets_dir_def resolve_name)

lemma resolve_env [simp]: "resolve w env_path = Entry (cwd w @ [''.env''])"
  by (simp add: env_path_def resolve_name)

lemma resolve_secret_file:
  "valid_name n \<Longrightarrow> map_of (files w) (secrets_dir w) = Some Dir
     \<Longrightarrow> resolve w (path_join secrets_path n) = Entry (secrets_dir w @ [n])"
  using resolve_in_dir[of "''.secrets''" n w] path_join_name[of "''.secrets''" n]
  by (simp add: secrets_path_def secrets_dir_def)

lemma entries_of_valid: "n \<in> set (entries_of fs d) \<Longrightarrow> valid_name n"
  by (auto simp: entries_of_def)

lemma entries_of_complete:
  assumes "map_of fs (d @ [n]) = Some v" "valid_name n"
  shows "n \<in> set (entries_of fs d)"
proof -
  have "(d @ [n], v) \<in> set fs" using assms(1) by (rule map_of_SomeD)
  then have "last (fst (d @ [n], v)) \<in> set (entries_of fs d)"
    unfolding entries_of_def using assms(2) by (simp add: image_iff) force
  then show ?thesis by simp
qed

lemma empty_secrets_result:
  assumes "map_of (files w) (secrets_dir w) = Some Dir" "\<forall>n\<in>set names. valid_name n"
  shows "\<exists>w'. empty_secrets names w = (Inr (), w') \<and> cwd w' = cwd w \<and> trace w' = trace w \<and>
           (\<forall>q. map_of (files w') q =
                  (if (\<exists>n\<in>set names. q = secrets_dir w @ [n]) \<and> (\<exists>c. map_of (files w) q = Some (File c))
                   then None else map_of (files w) q))"
  using assms
proof (induction names arbitrary: w)
  case Nil
  then show ?case by simp
next
  case (Cons n rest)
  let ?q = "secrets_dir w @ [n]"
  have r: "resolve w (path_join secrets_path n) = Entry ?q"
    using Cons.prems by (simp add: resolve_secret_file)
  show ?case
  proof (cases "\<exists>c. map_of (files w) ?q = Some (File c)")
    case True
    then obtain c where c: "map_of (files w) ?q = Some (File c)" by blast
    let ?w1 = "w\<lparr>files := AList.delete ?q (files w)\<rparr>"
    have isf: "isfile w (path_join secrets_path n)" using r c by (simp add: isfile_def)
    have rm: "remove_file (path_join secrets_path n) w = (Inr (), ?w1)"
      using r c by (simp add: remove_file_def)
    have sd: "secrets_dir ?w1 = secrets_dir w" by (simp add: secrets_dir_def)
    have d1: "map_of (files ?w1) (secrets_dir ?w1) = Some Dir"
      using Cons.prems(1) by (simp add: sd delete_conv)
    from Cons.IH[OF d1] Cons.prems(2) obtain w' where
      w': "empty_secrets rest ?w1 = (Inr (), w')" "cwd w' = cwd ?w1" "trace w' = trace ?w1"
        "\<forall>q. map_of (files w') q =
                  (if (\<exists>n\<in>set rest. q = secrets_dir ?w1 @ [n]) \<and> (\<exists>c. map_of (files ?w1) q = Some (File c))
                   then None else map_of (files ?w1) q)"
      by auto
    have "empty_secrets (n # rest) w = (Inr (), w')" using isf rm w'(1) by (simp add: Let_def)
    moreover have "\<forall>q. map_of (files w') q =
                  (if (\<exists>n\<in>set (n # rest). q = secrets_dir w @ [n]) \<and> (\<exists>c. map_of (files w) q = Some (File c))
                   then None else map_of (files w) q)"
      using w'(4) c by (auto simp: sd delete_conv)
    ultimately show ?thesis using w'(2,3) by simp
  next
    case False
    have isf: "\<not> isfile w (path_join secrets_path n)"
      using r False by (auto simp: isfile_def split: option.splits node.splits)
    from Cons.IH[OF Cons.prems(1)] Cons.prems(2) obtain w' where
      w': "empty_secrets rest w = (Inr (), w')" "cwd w' = cwd w" "trace w' = trace w"
        "\<forall>q. map_of (files w') q =
                  (if (\<exists>n\<in>set rest. q = secrets_dir w @ [n]) \<and> (\<exists>c. map_of (files w) q = Some (File c))
                   then None else map_of (files w) q)"
      by auto
    have "empty_secrets (n # rest) w = (Inr (), w')" using isf w'(1) by (simp add: Let_def)
    moreover have "\<forall>q. map_of (files w') q =
                  (if (\<exists>n\<in>set (n # rest). q = secrets_dir w @ [n]) \<and> (\<exists>c. map_of (files w) q = Some (File c))
                   then None else map_of (files w) q)"
      using w'(4) False by auto
    ultimately show ?thesis using w'(2,3) by simp
  qed
qed

lemma isfile_secrets: "isfile w secrets_path = (\<exists>c. map_of (files w) (secrets_dir w) = Some (File c))"
  by (auto simp: isfile_def split: option.splits node.splits)

lemma path_exists_secrets: "path_exists w secrets_path = (map_of (files w) (secrets_dir w) \<noteq> None)"
  by (simp add: path_exists_def)

lemma listdir_secrets:
  "map_of (files w) (secrets_dir w) = Some Dir
     \<Longrightarrow> listdir w secrets_path = Inr (entries_of (files w) (secrets_dir w))"
  by (simp add: listdir_def)

lemma secrets_dir_upd [simp]:
  "secrets_dir (print s w) = secrets_dir w" "secrets_dir (w\<lparr>files := fs\<rparr>) = secrets_dir w"
  by (simp_all add: secrets_dir_def)

lemma cleared_world:
  assumes d: "map_of (files w1) (secrets_dir w1) = Some Dir"
  shows "\<exists>w3. empty_secrets (entries_of (files w1) (secrets_dir w1)) (print s w1) = (Inr (), w3)
           \<and> cwd w3 = cwd w1 \<and> trace w3 = trace w1 @ [Print s]
           \<and> (\<forall>q. map_of (files w3) q =
                  (if (\<exists>n. valid_name n \<and> q = secrets_dir w1 @ [n]) \<and>
                      (\<exists>c. map_of (files w1) q = Some (File c))
                   then None else map_of (files w1) q))"
proof -
  let ?names = "entries_of (files w1) (secrets_dir w1)"
  have v: "\<forall>n\<in>set ?names. valid_name n" using entries_of_valid by blast
  have d': "map_of (files (print s w1)) (secrets_dir (print s w1)) = Some Dir" using d by simp
  from empty_secrets_result[OF d' v] obtain w3 where
    w3: "empty_secrets ?names (print s w1) = (Inr (), w3)" "cwd w3 = cwd w1"
        "trace w3 = trace w1 @ [Print s]"
        "\<forall>q. map_of (files w3) q =
                  (if (\<exists>n\<in>set ?names. q = secrets_dir w1 @ [n]) \<and> (\<exists>c. map_of (files w1) q = Some (File c))
                   then None else map_of (files w1) q)"
    by auto
  have "\<forall>q. map_of (files w3) q =
                  (if (\<exists>n. valid_name n \<and> q = secrets_dir w1 @ [n]) \<and>
                      (\<exists>c. map_of (files w1) q = Some (File c))
                   then None else map_of (files w1) q)"
  proof
    fix q
    have "((\<exists>n\<in>set ?names. q = secrets_dir w1 @ [n]) \<and> (\<exists>c. map_of (files w1) q = Some (File c)))
        = ((\<exists>n. valid_name n \<and> q = secrets_dir w1 @ [n]) \<and> (\<exists>c. map_of (files w1) q = Some (File c)))"
      using entries_of_valid entries_of_complete by blast
    then show "map_of (files w3) q =
                  (if (\<exists>n. valid_name n \<and> q = secrets_dir w1 @ [n]) \<and>
                      (\<exists>c. map_of (files w1) q = Some (File c))
                   then None else map_of (files w1) q)"
      using w3(4) by simp
  qed
  then show ?thesis using w3 by blast
qed

lemma preparing_eq: "''Preparing secrets in '' @ secrets_path @ ''...'' = preparing"
  by (simp add: preparing_def secrets_path_def)

lemma prepare_env_cases:
  "(isfile w secrets_path \<and> prepare_env w = (Inl OSError, print preparing w)) \<or>
   (\<not> isfile w secrets_path \<and>
    (\<exists>w3. cwd w3 = cwd w \<and> trace w3 = trace w @ [Print preparing]
        \<and> map_of (files w3) (secrets_dir w) = Some Dir
        \<and> (\<forall>q. q \<noteq> secrets_dir w \<longrightarrow> map_of (files w3) q =
               (if (\<exists>n. valid_name n \<and> q = secrets_dir w @ [n]) \<and>
                   (\<exists>c. map_of (files w) q = Some (File c))
                then None else map_of (files w) q))
        \<and> prepare_env w =
            (case read_text w3 env_path of
               Inl e \<Rightarrow> (Inl e, w3)
             | Inr content \<Rightarrow>
                 (case write_secrets (env_lines content) w3 of
                    (Inl e, w4) \<Rightarrow> (Inl e, w4)
                  | (Inr u, w4) \<Rightarrow> (Inr (), print ''Secrets prepared.'' w4)))))"
proof (cases "map_of (files w) (secrets_dir w)")
  case None
  let ?w1 = "w\<lparr>files := AList.update (secrets_dir w) Dir (files w)\<rparr>"
  have mk: "mkdir secrets_path w = (Inr (), ?w1)" using None by (simp add: mkdir_def)
  have d: "map_of (files ?w1) (secrets_dir ?w1) = Some Dir" by (simp add: update_conv)
  from cleared_world[OF d, of preparing] obtain w3 where
    w3: "empty_secrets (entries_of (files ?w1) (secrets_dir ?w1)) (print preparing ?w1) = (Inr (), w3)"
      "cwd w3 = cwd ?w1" "trace w3 = trace ?w1 @ [Print preparing]"
      "\<forall>q. map_of (files w3) q =
                  (if (\<exists>n. valid_name n \<and> q = secrets_dir ?w1 @ [n]) \<and>
                      (\<exists>c. map_of (files ?w1) q = Some (File c))
                   then None else map_of (files ?w1) q)"
    by blast
  have ld: "listdir (print preparing ?w1) secrets_path = Inr (entries_of (files ?w1) (secrets_dir ?w1))"
    using listdir_secrets[of "print preparing ?w1"] d by simp
  have pe: "prepare_env w =
            (case read_text w3 env_path of
               Inl e \<Rightarrow> (Inl e, w3)
             | Inr content \<Rightarrow>
                 (case write_secrets (env_lines content) w3 of
                    (Inl e, w4) \<Rightarrow> (Inl e, w4)
                  | (Inr u, w4) \<Rightarrow> (Inr (), print ''Secrets prepared.'' w4)))"
    using None mk ld w3(1) unfolding prepare_env_def preparing_eq
    by (simp add: path_exists_secrets Let_def)
  have nf: "\<not> isfile w secrets_path" using None by (simp add: isfile_secrets)
  have m: "\<forall>q. q \<noteq> secrets_dir w \<longrightarrow> map_of (files w3) q =
               (if (\<exists>n. valid_name n \<and> q = secrets_dir w @ [n]) \<and>
                   (\<exists>c. map_of (files w) q = Some (File c))
                then None else map_of (files w) q)"
  proof (intro allI impI)
    fix q assume "q \<noteq> secrets_dir w"
    then have "map_of (files ?w1) q = map_of (files w) q" by (simp add: update_conv)
    then show "map_of (files w3) q =
               (if (\<exists>n. valid_name n \<and> q = secrets_dir w @ [n]) \<and>
                   (\<exists>c. map_of (files w) q = Some (File c))
                then None else map_of (files w) q)"
      using spec[OF w3(4), of q] by (auto split: if_splits)
  qed
  have "map_of (files ?w1) (secrets_dir w) = Some Dir" by (simp add: update_conv)
  then have "map_of (files w3) (secrets_dir w) = Some Dir"
    using spec[OF w3(4), of "secrets_dir w"] by (auto split: if_splits)
  then show ?thesis using nf w3(2,3) m pe by (intro disjI2 conjI exI[of _ w3]) simp_all
next
  case (Some v)
  show ?thesis
  proof (cases v)
    case (File c)
    have "listdir (print preparing w) secrets_path = Inl OSError"
      using Some File by (simp add: listdir_def)
    then have "prepare_env w = (Inl OSError, print preparing w)"
      using Some unfolding prepare_env_def preparing_eq by (simp add: path_exists_secrets Let_def)
    then show ?thesis using Some File by (simp add: isfile_secrets)
  next
    case Dir
    have d: "map_of (files w) (secrets_dir w) = Some Dir" using Some Dir by simp
    from cleared_world[OF d, of preparing] obtain w3 where
      w3: "empty_secrets (entries_of (files w) (secrets_dir w)) (print preparing w) = (Inr (), w3)"
        "cwd w3 = cwd w" "trace w3 = trace w @ [Print preparing]"
        "\<forall>q. map_of (files w3) q =
                  (if (\<exists>n. valid_name n \<and> q = secrets_dir w @ [n]) \<and>
                      (\<exists>c. map_of (files w) q = Some (File c))
                   then None else map_of (files w) q)"
      by blast
    have ld: "listdir (print preparing w) secrets_path = Inr (entries_of (files w) (secrets_dir w))"
      using listdir_secrets[of "print preparing w"] d by simp
    have pe: "prepare_env w =
            (case read_text w3 env_path of
               Inl e \<Rightarrow> (Inl e, w3)
             | Inr content \<Rightarrow>
                 (case write_secrets (env_lines content) w3 of
                    (Inl e, w4) \<Rightarrow> (Inl e, w4)
                  | (Inr u, w4) \<Rightarrow> (Inr (), print ''Secrets prepared.'' w4)))"
      using d ld w3(1) unfolding prepare_env_def preparing_eq
      by (simp add: path_exists_secrets Let_def)
    have nf: "\<not> isfile w secrets_path" using d by (simp add: isfile_secrets)
    have "map_of (files w3) (secrets_dir w) = Some Dir" using w3(4) d by simp
    then show ?thesis using nf w3(2,3,4) pe by (intro disjI2 conjI exI[of _ w3]) simp_all
  qed
qed

lemma env_not_secret: "cwd w @ [''.env''] \<noteq> secrets_dir w" "cwd w @ [''.env''] \<noteq> secrets_dir w @ [n]"
  by (simp_all add: secrets_dir_def)

lemma read_text_env:
  "read_text w env_path =
     (case map_of (files w) (cwd w @ [''.env'']) of
        Some (File c) \<Rightarrow> Inr (universal_newlines c) | _ \<Rightarrow> Inl OSError)"
  by (simp add: read_text_def read_bytes_def split: option.split node.split)

lemma path_exists_env: "path_exists w env_path = (map_of (files w) (cwd w @ [''.env'']) \<noteq> None)"
  by (simp add: path_exists_def)

lemma isfile_secret_file:
  assumes "valid_name n"
  shows "isfile w (path_join secrets_path n) =
           (map_of (files w) (secrets_dir w) = Some Dir \<and>
            (\<exists>c. map_of (files w) (secrets_dir w @ [n]) = Some (File c)))"
proof -
  have "resolve w (path_join secrets_path n) =
          (if map_of (files w) (secrets_dir w) = Some Dir then Entry (secrets_dir w @ [n])
           else Unresolved)"
    using resolve_in_dir[of "''.secrets''" n w] path_join_name[of "''.secrets''" n] assms
    by (simp add: secrets_path_def secrets_dir_def)
  then show ?thesis by (auto simp: isfile_def split: option.splits node.splits)
qed

lemma prepare_env_reads_env:
  assumes "\<not> isfile w secrets_path"
  obtains w3 where "cwd w3 = cwd w" "map_of (files w3) (secrets_dir w) = Some Dir"
    "\<forall>q. q \<noteq> secrets_dir w \<longrightarrow> map_of (files w3) q =
               (if (\<exists>n. valid_name n \<and> q = secrets_dir w @ [n]) \<and>
                   (\<exists>c. map_of (files w) q = Some (File c))
                then None else map_of (files w) q)"
    "read_text w3 env_path = read_text w env_path"
    "prepare_env w =
            (case read_text w env_path of
               Inl e \<Rightarrow> (Inl e, w3)
             | Inr content \<Rightarrow>
                 (case write_secrets (env_lines content) w3 of
                    (Inl e, w4) \<Rightarrow> (Inl e, w4)
                  | (Inr u, w4) \<Rightarrow> (Inr (), print ''Secrets prepared.'' w4)))"
proof -
  from prepare_env_cases[of w] assms obtain w3 where
    w3: "cwd w3 = cwd w" "map_of (files w3) (secrets_dir w) = Some Dir"
    "\<forall>q. q \<noteq> secrets_dir w \<longrightarrow> map_of (files w3) q =
               (if (\<exists>n. valid_name n \<and> q = secrets_dir w @ [n]) \<and>
                   (\<exists>c. map_of (files w) q = Some (File c))
                then None else map_of (files w) q)"
    "prepare_env w =
            (case read_text w3 env_path of
               Inl e \<Rightarrow> (Inl e, w3)
             | Inr content \<Rightarrow>
                 (case write_secrets (env_lines content) w3 of
                    (Inl e, w4) \<Rightarrow> (Inl e, w4)
                  | (Inr u, w4) \<Rightarrow> (Inr (), print ''Secrets prepared.'' w4)))"
    by blast
  have "map_of (files w3) (cwd w @ [''.env'']) = map_of (files w) (cwd w @ [''.env''])"
    using spec[OF w3(3), of "cwd w @ [''.env'']"] env_not_secret[of w] by auto
  then have r: "read_text w3 env_path = read_text w env_path"
    using w3(1) by (simp add: read_text_env)
  show ?thesis using that[OF w3(1,2,3) r] w3(4) r by simp
qed

lemma prepare_env_without_env:
  assumes "\<not> path_exists w env_path"
  shows "fst (prepare_env w) = Inl OSError
       \<and> (\<forall>n. valid_name n \<longrightarrow> \<not> isfile (snd (prepare_env w)) (path_join secrets_path n))
       \<and> (\<forall>q c. map_of (files (snd (prepare_env w))) q = Some (File c)
                 \<longrightarrow> map_of (files w) q = Some (File c))"
proof (cases "isfile w secrets_path")
  case True
  then have pe: "prepare_env w = (Inl OSError, print preparing w)"
    using prepare_env_cases[of w] by blast
  have "\<not> isfile (print preparing w) (path_join secrets_path n)" if "valid_name n" for n
    using True that by (auto simp: isfile_secret_file isfile_secrets)
  then show ?thesis using pe by simp
next
  case False
  from prepare_env_reads_env[OF False] obtain w3 where
    w3: "cwd w3 = cwd w" "map_of (files w3) (secrets_dir w) = Some Dir"
    "\<forall>q. q \<noteq> secrets_dir w \<longrightarrow> map_of (files w3) q =
               (if (\<exists>n. valid_name n \<and> q = secrets_dir w @ [n]) \<and>
                   (\<exists>c. map_of (files w) q = Some (File c))
                then None else map_of (files w) q)"
    "prepare_env w =
            (case read_text w env_path of
               Inl e \<Rightarrow> (Inl e, w3)
             | Inr content \<Rightarrow>
                 (case write_secrets (env_lines content) w3 of
                    (Inl e, w4) \<Rightarrow> (Inl e, w4)
                  | (Inr u, w4) \<Rightarrow> (Inr (), print ''Secrets prepared.'' w4)))"
    by blast
  have "read_text w env_path = Inl OSError"
    using assms by (simp add: read_text_env path_exists_env)
  then have pe: "prepare_env w = (Inl OSError, w3)" using w3(4) by simp
  have sd: "secrets_dir w3 = secrets_dir w" using w3(1) by (simp add: secrets_dir_def)
  have a: "\<not> isfile w3 (path_join secrets_path n)" if "valid_name n" for n
    using spec[OF w3(3), of "secrets_dir w @ [n]"] that
    by (auto simp: isfile_secret_file sd split: if_splits)
  have b: "map_of (files w) q = Some (File c)" if "map_of (files w3) q = Some (File c)" for q c
  proof -
    have "q \<noteq> secrets_dir w" using that w3(2) by auto
    then show ?thesis using spec[OF w3(3), of q] that by (auto split: if_splits)
  qed
  show ?thesis using pe a b by simp
qed

text \<open>
  C8. When \<open>.env\<close> does not exist, \<open>prepare_env\<close> ends with the exception of the failed open
  (an \<open>OSError\<close>), and in the state it leaves behind no name in \<open>.secrets\<close> is a plain file
  any more: the directory was emptied before the open, and nothing is put back (every file
  of the state afterwards was there before, with the same content). \<open>main\<close> does not catch
  the exception: a run without the config-only flag ends with it, in that state.
\<close>

theorem prepare_env_missing_env_file:
  assumes "\<not> path_exists w env_path"
  shows "fst (prepare_env w) = Inl OSError
       \<and> (\<forall>n. valid_name n \<longrightarrow> \<not> isfile (snd (prepare_env w)) (path_join secrets_path n))
       \<and> (\<forall>q c. map_of (files (snd (prepare_env w))) q = Some (File c)
                 \<longrightarrow> map_of (files w) q = Some (File c))
       \<and> (\<not> config a \<longrightarrow> main sh random_key a w = (Inl OSError, snd (prepare_env w)))"
proof -
  note p = prepare_env_without_env[OF assms]
  obtain r w1 where pe: "prepare_env w = (r, w1)" by (cases "prepare_env w")
  have r: "r = Inl OSError" using p pe by simp
  have "main sh random_key a w = (Inl OSError, snd (prepare_env w))" if "\<not> config a"
    using that pe r by (simp add: main_def)
  then show ?thesis using p by blast
qed




theorem generate_searxng_secret_key_without_base_witness:
  "\<not> path_exists (without [''srv'', ''searxng'', ''settings-base.yml''] example_world)
        ''searxng/settings-base.yml''
   \<and> placeholder_present (without [''srv'', ''searxng'', ''settings-base.yml''] example_world)
   \<and> placeholder_present (generate_searxng_secret_key example_key
         (without [''srv'', ''searxng'', ''settings-base.yml''] example_world))"
proof -
  let ?w = "without [''srv'', ''searxng'', ''settings-base.yml''] example_world"
  have h: "\<not> path_exists ?w ''searxng/settings-base.yml''"
    by (simp add: path_exists_def resolve_def without_def example_world_def example_files_def)
  have p: "placeholder_present ?w" by code_simp
  have g: "generate_searxng_secret_key example_key ?w =
           print ''Warning: SearXNG base settings file not found at searxng/settings-base.yml''
             (print ''Checking SearXNG settings...'' ?w)"
    using generate_searxng_secret_key_without_base[OF h, of example_key] .
  have "placeholder_present
          (print ''Warning: SearXNG base settings file not found at searxng/settings-base.yml''
             (print ''Checking SearXNG settings...'' ?w))"
    by code_simp
  then show ?thesis using h p g by simp
qed

theorem main_config_only_witness:
  "config (default_args\<lparr>config := True\<rparr>)
   \<and> files (snd (main (\<lambda>n c. Some ''services: {}'') example_key
                (default_args\<lparr>config := True\<rparr>) example_world)) = files example_world
   \<and> executed (snd (main (\<lambda>n c. Some ''services: {}'') example_key
                (default_args\<lparr>config := True\<rparr>) example_world)) =
       [[''docker'', ''compose'', ''-p'', ''insights-lm'', ''--env-file'', ''.env'',
         ''--profile'', ''cpu'', ''-f'', ''docker-compose.yml'', ''-f'',
         ''docker-compose.override.yml'', ''-f'',
         ''local-ai-packaged/docker-compose.override.private.yml'', ''config'']]
   \<and> fst (main (\<lambda>n c. Some ''services: {}'') example_key
            (default_args\<lparr>config := True\<rparr>) example_world) = Inr ()
   \<and> last (trace (snd (main (\<lambda>n c. Some ''services: {}'') example_key
                  (default_args\<lparr>config := True\<rparr>) example_world))) = Print ''services: {}''"
proof -
  have h: "config (default_args\<lparr>config := True\<rparr>)" by simp
  have e: "executed example_world = []" by (simp add: executed_def example_world_def)
  show ?thesis
    using h e main_config_only[OF h, of "\<lambda>n c. Some ''services: {}''" example_key example_world]
    by (simp add: default_args_def docker_compose_def Let_def path_join_def)
qed

theorem prepare_env_missing_env_file_witness:
  "\<not> path_exists (without [''srv'', ''.env''] example_world) env_path
   \<and> isfile (without [''srv'', ''.env''] example_world) (path_join secrets_path ''stale'')
   \<and> fst (prepare_env (without [''srv'', ''.env''] example_world)) = Inl OSError
   \<and> \<not> isfile (snd (prepare_env (without [''srv'', ''.env''] example_world)))
          (path_join secrets_path ''stale'')
   \<and> \<not> config default_args
   \<and> fst (main (\<lambda>n c. Some []) example_key default_args
             (without [''srv'', ''.env''] example_world)) = Inl OSError"
proof -
  let ?w = "without [''srv'', ''.env''] example_world"
  have h: "\<not> path_exists ?w env_path" by code_simp
  have s: "isfile ?w (path_join secrets_path ''stale'')" by code_simp
  have v: "valid_name ''stale''" by (simp add: valid_name_def)
  have c: "\<not> config default_args" by (simp add: default_args_def)
  note t = prepare_env_missing_env_file[OF h, of default_args "\<lambda>n c. Some []" example_key]
  have "fst (main (\<lambda>n c. Some []) example_key default_args ?w) = Inl OSError"
    using t c by simp
  then show ?thesis using h s v c t by blast
qed


subsection \<open>The settings of the search service\<close>

lemma universal_newlines_no_cr: "CHR 0x0D \<notin> set (universal_newlines s)"
  by (induction s rule: universal_newlines.induct) (auto split: list.splits)

lemma universal_newlines_id: "CHR 0x0D \<notin> set s \<Longrightarrow> universal_newlines s = s"
  by (induction s rule: universal_newlines.induct) (auto split: list.splits)

lemma set_replace_from: "set (replace_from old new s) \<subseteq> set s \<union> set new"
proof (induction old new s rule: replace_from.induct)
  case (1 old new)
  then show ?case by simp
next
  case (2 old new c cs)
  show ?case
  proof (cases "old \<noteq> [] \<and> prefix old (c # cs)")
    case True
    have "set (drop (length old) (c # cs)) \<subseteq> set (c # cs)" by (rule set_drop_subset)
    then show ?thesis using "2.IH"(1)[OF True] by (auto simp only: replace_from_hit[OF True] set_append)
  next
    case False
    then show ?thesis using "2.IH"(2)[OF False] by (auto simp only: replace_from_miss[OF False] list.set)
  qed
qed

lemma str_in_prefix: "prefix sub s \<Longrightarrow> str_in sub s"
  by (cases s) auto

lemma str_in_replace_from:
  "old \<noteq> [] \<Longrightarrow> str_in old s \<Longrightarrow> str_in new (replace_from old new s)"
proof (induction old new s rule: replace_from.induct)
  case (1 old new)
  then show ?case by simp
next
  case (2 old new c cs)
  show ?case
  proof (cases "old \<noteq> [] \<and> prefix old (c # cs)")
    case True
    have "str_in new (new @ replace_from old new (drop (length old) (c # cs)))"
      by (rule str_in_prefix) simp
    then show ?thesis by (simp only: replace_from_hit[OF True])
  next
    case False
    then have "str_in old cs" using "2.prems" by auto
    then have "str_in new (replace_from old new cs)" using "2.IH"(2)[OF False] "2.prems"(1) by blast
    then show ?thesis by (simp only: replace_from_miss[OF False] str_in.simps) simp
  qed
qed

lemma resolve_settings:
  "resolve w ''searxng/settings.yml'' =
     (if map_of (files w) (cwd w @ [''searxng'']) = Some Dir then Entry (settings_file w)
      else Unresolved)"
  using resolve_in_dir[of "''searxng''" "''settings.yml''" w] by (simp add: settings_file_def)

lemma resolve_settings_base:
  "resolve w ''searxng/settings-base.yml'' =
     (if map_of (files w) (cwd w @ [''searxng'']) = Some Dir
      then Entry (cwd w @ [''searxng'', ''settings-base.yml'']) else Unresolved)"
  using resolve_in_dir[of "''searxng''" "''settings-base.yml''" w] by simp

lemma read_text_settings:
  "read_text w ''searxng/settings.yml'' = Inr content \<longleftrightarrow>
     map_of (files w) (cwd w @ [''searxng'']) = Some Dir \<and>
     (\<exists>c. map_of (files w) (settings_file w) = Some (File c) \<and> content = universal_newlines c)"
  by (auto simp: read_text_def read_bytes_def resolve_settings split: option.splits node.splits)

lemma settings_paths [simp]:
  "path_join ''searxng'' ''settings.yml'' = ''searxng/settings.yml''"
  "path_join ''searxng'' ''settings-base.yml'' = ''searxng/settings-base.yml''"
  by (simp_all add: path_join_def)

lemma token_hex32_chars:
  assumes "token_hex32 key"
  shows "length key = 64" "CHR ''u'' \<notin> set key" "CHR ''y'' \<notin> set key" "CHR 0x0D \<notin> set key"
proof -
  have sub: "set key \<subseteq> set ''0123456789abcdef''"
    using assms unfolding token_hex32_def list_all_iff by blast
  show "length key = 64" using assms by (simp add: token_hex32_def)
  have "CHR ''u'' \<notin> set ''0123456789abcdef''" by simp
  then show "CHR ''u'' \<notin> set key" using sub by blast
  have "CHR ''y'' \<notin> set ''0123456789abcdef''" by simp
  then show "CHR ''y'' \<notin> set key" using sub by blast
  have "CHR 0x0D \<notin> set ''0123456789abcdef''" by simp
  then show "CHR 0x0D \<notin> set key" using sub by blast
qed

lemma placeholder_removed:
  assumes "token_hex32 key"
  shows "\<not> str_in ''ultrasecretkey'' (replace content ''ultrasecretkey'' key)"
proof -
  have "\<not> str_in ''ultrasecretkey'' (replace_from ''ultrasecretkey'' key content)"
    by (rule replace_from_removes) (use token_hex32_chars[OF assms] in simp_all)
  then show ?thesis by (simp add: replace_def)
qed

lemma settings_file_upd [simp]:
  "settings_file (print s w) = settings_file w" "settings_file (w\<lparr>files := fs\<rparr>) = settings_file w"
  "settings_file (w\<lparr>trace := t\<rparr>) = settings_file w"
  by (simp_all add: settings_file_def)

lemma read_text_print [simp]:
  "read_text (print s w) p = read_text w p" "read_bytes (print s w) p = read_bytes w p"
  by (simp_all add: read_text_def read_bytes_def split: target.split)

lemma write_text_settings:
  assumes "map_of (files w) (cwd w @ [''searxng'']) = Some Dir"
    and "map_of (files w) (settings_file w) \<noteq> Some Dir"
  shows "write_text ''searxng/settings.yml'' d w =
           (Inr (), w\<lparr>files := AList.update (settings_file w) (File d) (files w)\<rparr>)"
  using assms by (simp add: write_text_def resolve_settings)

lemma path_exists_settings:
  "path_exists w ''searxng/settings.yml'' =
     (map_of (files w) (cwd w @ [''searxng'']) = Some Dir \<and> map_of (files w) (settings_file w) \<noteq> None)"
  by (simp add: path_exists_def resolve_settings)

lemma path_exists_settings_base:
  "path_exists w ''searxng/settings-base.yml'' =
     (map_of (files w) (cwd w @ [''searxng'']) = Some Dir \<and>
      map_of (files w) (cwd w @ [''searxng'', ''settings-base.yml'']) \<noteq> None)"
  by (simp add: path_exists_def resolve_settings_base)

lemma generate_searxng_secret_key_hit:
  assumes base: "path_exists w ''searxng/settings-base.yml''"
    and rd: "read_text w ''searxng/settings.yml'' = Inr content"
    and ph: "str_in ''ultrasecretkey'' content"
  shows "generate_searxng_secret_key key w =
           print ''SearXNG secret key generated successfully.''
             ((print ''Checking SearXNG settings...'' w)
                \<lparr>files := AList.update (settings_file w)
                            (File (replace content ''ultrasecretkey'' key)) (files w)\<rparr>)"
proof -
  let ?w1 = "print ''Checking SearXNG settings...'' w"
  from rd obtain c where d: "map_of (files w) (cwd w @ [''searxng'']) = Some Dir"
    and c: "map_of (files w) (settings_file w) = Some (File c)"
    by (auto simp: read_text_settings)
  have ex: "path_exists ?w1 ''searxng/settings.yml''" using d c by (simp add: path_exists_settings)
  have wr: "write_text ''searxng/settings.yml'' (replace content ''ultrasecretkey'' key) ?w1 =
      (Inr (), ?w1\<lparr>files := AList.update (settings_file w)
                            (File (replace content ''ultrasecretkey'' key)) (files w)\<rparr>)"
    using write_text_settings[of ?w1] d c by simp
  show ?thesis
    unfolding generate_searxng_secret_key_def Let_def settings_paths
    using base ex rd ph wr by simp
qed

lemma generate_searxng_secret_key_miss:
  assumes base: "path_exists w ''searxng/settings-base.yml''"
    and rd: "read_text w ''searxng/settings.yml'' = Inr content"
    and ph: "\<not> str_in ''ultrasecretkey'' content"
  shows "generate_searxng_secret_key key w =
           print ''SearXNG secret key already set in settings.yml, no action needed.''
             (print ''Checking SearXNG settings...'' w)"
proof -
  let ?w1 = "print ''Checking SearXNG settings...'' w"
  from rd obtain c where d: "map_of (files w) (cwd w @ [''searxng'']) = Some Dir"
    and c: "map_of (files w) (settings_file w) = Some (File c)"
    by (auto simp: read_text_settings)
  have ex: "path_exists ?w1 ''searxng/settings.yml''" using d c by (simp add: path_exists_settings)
  show ?thesis
    unfolding generate_searxng_secret_key_def Let_def settings_paths
    using base ex rd ph by simp
qed

lemma replace_no_cr:
  assumes "CHR 0x0D \<notin> set s" "CHR 0x0D \<notin> set new" "old \<noteq> []"
  shows "CHR 0x0D \<notin> set (replace s old new)"
  using set_replace_from[of old new s] assms by (auto simp: replace_def)

text \<open>
  C4, as amended. When the base template \<open>searxng/settings-base.yml\<close> exists and the text of
  \<open>searxng/settings.yml\<close> holds the placeholder, one run of \<open>generate_searxng_secret_key\<close> with
  a key of 64 hexadecimal digits leaves in the file that text with every occurrence of the
  placeholder replaced by the key; the new text holds no placeholder; and a second run,
  with any key, leaves every file as the first run left it.
\<close>

theorem generate_searxng_secret_key_once:
  assumes base: "path_exists w ''searxng/settings-base.yml''"
    and rd: "read_text w ''searxng/settings.yml'' = Inr content"
    and ph: "str_in ''ultrasecretkey'' content"
    and tok: "token_hex32 key"
  shows "read_text (generate_searxng_secret_key key w) ''searxng/settings.yml'' =
           Inr (replace content ''ultrasecretkey'' key)
       \<and> \<not> str_in ''ultrasecretkey'' (replace content ''ultrasecretkey'' key)
       \<and> files (generate_searxng_secret_key key2 (generate_searxng_secret_key key w)) =
           files (generate_searxng_secret_key key w)"
proof -
  let ?new = "replace content ''ultrasecretkey'' key"
  let ?w' = "generate_searxng_secret_key key w"
  from rd obtain c where d: "map_of (files w) (cwd w @ [''searxng'']) = Some Dir"
    and c: "map_of (files w) (settings_file w) = Some (File c)"
    and content: "content = universal_newlines c"
    by (auto simp: read_text_settings)
  have w': "?w' = print ''SearXNG secret key generated successfully.''
             ((print ''Checking SearXNG settings...'' w)
                \<lparr>files := AList.update (settings_file w) (File ?new) (files w)\<rparr>)"
    by (rule generate_searxng_secret_key_hit[OF base rd ph])
  have cwd': "cwd ?w' = cwd w" by (simp add: w')
  have m: "map_of (files ?w') q = (if q = settings_file w then Some (File ?new) else map_of (files w) q)"
    for q by (simp add: w' update_conv)
  have sne: "cwd w @ [''searxng''] \<noteq> settings_file w"
    "cwd w @ [''searxng'', ''settings-base.yml''] \<noteq> settings_file w"
    by (simp_all add: settings_file_def)
  have nocr: "CHR 0x0D \<notin> set ?new"
    by (rule replace_no_cr) (use content universal_newlines_no_cr token_hex32_chars[OF tok] in simp_all)
  have rd': "read_text ?w' ''searxng/settings.yml'' = Inr ?new"
    using d m sne universal_newlines_id[OF nocr]
    by (simp add: read_text_settings cwd' settings_file_def)
  have gone: "\<not> str_in ''ultrasecretkey'' ?new" by (rule placeholder_removed[OF tok])
  have base': "path_exists ?w' ''searxng/settings-base.yml''"
    using base d m sne by (simp add: path_exists_settings_base cwd')
  have "generate_searxng_secret_key key2 ?w' =
           print ''SearXNG secret key already set in settings.yml, no action needed.''
             (print ''Checking SearXNG settings...'' ?w')"
    by (rule generate_searxng_secret_key_miss[OF base' rd' gone])
  then have "files (generate_searxng_secret_key key2 ?w') = files ?w'" by simp
  then show ?thesis using rd' gone by blast
qed

subsection \<open>The manifest\<close>

lemma manifest_file_upd [simp]:
  "manifest_file (print s w) = manifest_file w" "manifest_file (w\<lparr>files := fs\<rparr>) = manifest_file w"
  by (simp_all add: manifest_file_def)

lemma resolve_manifest [simp]: "resolve w ''docker-compose.yml'' = Entry (manifest_file w)"
  by (simp add: manifest_file_def resolve_name)

lemma read_text_manifest:
  "read_text w ''docker-compose.yml'' = Inr content \<longleftrightarrow>
     (\<exists>c. map_of (files w) (manifest_file w) = Some (File c) \<and> content = universal_newlines c)"
  by (auto simp: read_text_def read_bytes_def split: option.splits node.splits)

lemma placeholder_present_print [simp]:
  "placeholder_present (print s w) = placeholder_present w"
  by (simp add: placeholder_present_def Let_def)

lemma cap_drop_strings:
  "cap_drop_active \<noteq> []" "cap_drop_commented \<noteq> []"
  "cap_drop_commented = CHR ''#'' # CHR '' '' # cap_drop_active @ ''  # Temporarily commented out for first run''"
  "CHR ''#'' \<notin> set cap_drop_active" "CHR 0x0D \<notin> set cap_drop_active"
  "CHR 0x0D \<notin> set cap_drop_commented"
  by (simp_all add: cap_drop_active_def cap_drop_commented_def)

lemma cap_drop_round_trip:
  "replace (replace s cap_drop_active cap_drop_commented) cap_drop_commented cap_drop_active = s"
  using replace_from_round_trip[OF cap_drop_strings(1,3,4), of s]
  by (simp add: replace_def cap_drop_strings)

lemma cap_drop_commented_in:
  "str_in cap_drop_active s \<Longrightarrow> str_in cap_drop_commented (replace s cap_drop_active cap_drop_commented)"
  using str_in_replace_from[OF cap_drop_strings(1), of s cap_drop_commented]
  by (simp add: replace_def cap_drop_strings)

lemma check_and_fix_comment:
  assumes rd: "read_text w ''docker-compose.yml'' = Inr content"
    and pp: "placeholder_present w" and act: "str_in cap_drop_active content"
  shows "files (check_and_fix_docker_compose_for_searxng w) =
           AList.update (manifest_file w)
             (File (replace content cap_drop_active cap_drop_commented)) (files w)
       \<and> cwd (check_and_fix_docker_compose_for_searxng w) = cwd w"
proof -
  from rd obtain c where c: "map_of (files w) (manifest_file w) = Some (File c)"
    by (auto simp: read_text_manifest)
  have ex: "path_exists w ''docker-compose.yml''" using c by (simp add: path_exists_def)
  have wr: "write_text ''docker-compose.yml'' d (print s w) =
      (Inr (), (print s w)\<lparr>files := AList.update (manifest_file w) (File d) (files w)\<rparr>)" for d s
    using c by (simp add: write_text_def)
  show ?thesis
    unfolding check_and_fix_docker_compose_for_searxng_def Let_def
    using ex rd pp act wr by simp
qed

lemma check_and_fix_restore:
  assumes rd: "read_text w ''docker-compose.yml'' = Inr content"
    and pp: "\<not> placeholder_present w" and com: "str_in cap_drop_commented content"
  shows "files (check_and_fix_docker_compose_for_searxng w) =
           AList.update (manifest_file w)
             (File (replace content cap_drop_commented cap_drop_active)) (files w)
       \<and> cwd (check_and_fix_docker_compose_for_searxng w) = cwd w"
proof -
  from rd obtain c where c: "map_of (files w) (manifest_file w) = Some (File c)"
    by (auto simp: read_text_manifest)
  have ex: "path_exists w ''docker-compose.yml''" using c by (simp add: path_exists_def)
  have wr: "write_text ''docker-compose.yml'' d (print s w) =
      (Inr (), (print s w)\<lparr>files := AList.update (manifest_file w) (File d) (files w)\<rparr>)" for d s
    using c by (simp add: write_text_def)
  show ?thesis
    unfolding check_and_fix_docker_compose_for_searxng_def Let_def
    using ex rd pp com wr by simp
qed

lemma read_text_manifest_written:
  assumes "files w' = AList.update (manifest_file w) (File d) (files w)" "cwd w' = cwd w"
    and "CHR 0x0D \<notin> set d"
  shows "read_text w' ''docker-compose.yml'' = Inr d"
proof -
  have "manifest_file w' = manifest_file w" using assms(2) by (simp add: manifest_file_def)
  then show ?thesis
    using assms(1) universal_newlines_id[OF assms(3)] by (simp add: read_text_manifest update_conv)
qed

text \<open>
  C5. Let the text of the manifest \<open>docker-compose.yml\<close>, as the tool reads it, hold the
  active directive. With the first-run signal on, \<open>check_and_fix_docker_compose_for_searxng\<close>
  leaves the text with every occurrence of the directive replaced by the commented sentinel.
  With the signal off and the sentinel in the text, it leaves the text with every sentinel
  replaced by the directive. And the two in sequence give the text back: when the first
  has run, then in any state where the manifest reads as the first left it and the signal is
  off, the second leaves the text the tool read at the start.
\<close>

theorem check_and_fix_round_trip:
  assumes rd: "read_text w ''docker-compose.yml'' = Inr content"
    and act: "str_in cap_drop_active content"
  shows "(placeholder_present w \<longrightarrow>
            read_text (check_and_fix_docker_compose_for_searxng w) ''docker-compose.yml'' =
              Inr (replace content cap_drop_active cap_drop_commented))
       \<and> (\<not> placeholder_present w \<and> str_in cap_drop_commented content \<longrightarrow>
            read_text (check_and_fix_docker_compose_for_searxng w) ''docker-compose.yml'' =
              Inr (replace content cap_drop_commented cap_drop_active))
       \<and> (placeholder_present w \<and> \<not> placeholder_present w2 \<and>
          read_text w2 ''docker-compose.yml'' =
            read_text (check_and_fix_docker_compose_for_searxng w) ''docker-compose.yml'' \<longrightarrow>
            read_text (check_and_fix_docker_compose_for_searxng w2) ''docker-compose.yml'' =
              Inr content)"
proof -
  from rd obtain c where content: "content = universal_newlines c"
    by (auto simp: read_text_manifest)
  have nocr: "CHR 0x0D \<notin> set content" using content universal_newlines_no_cr by simp
  have nocr1: "CHR 0x0D \<notin> set (replace content cap_drop_active cap_drop_commented)"
    by (rule replace_no_cr) (use nocr cap_drop_strings in simp_all)
  have nocr2: "CHR 0x0D \<notin> set (replace content cap_drop_commented cap_drop_active)"
    by (rule replace_no_cr) (use nocr cap_drop_strings in simp_all)
  have one: "read_text (check_and_fix_docker_compose_for_searxng w) ''docker-compose.yml'' =
              Inr (replace content cap_drop_active cap_drop_commented)" if "placeholder_present w"
    using check_and_fix_comment[OF rd that act] nocr1 by (intro read_text_manifest_written) simp_all
  have two: "read_text (check_and_fix_docker_compose_for_searxng w) ''docker-compose.yml'' =
              Inr (replace content cap_drop_commented cap_drop_active)"
    if "\<not> placeholder_present w" "str_in cap_drop_commented content"
    using check_and_fix_restore[OF rd that] nocr2 by (intro read_text_manifest_written) simp_all
  have three: "read_text (check_and_fix_docker_compose_for_searxng w2) ''docker-compose.yml'' =
              Inr content"
    if pp: "placeholder_present w" and np: "\<not> placeholder_present w2"
      and same: "read_text w2 ''docker-compose.yml'' =
            read_text (check_and_fix_docker_compose_for_searxng w) ''docker-compose.yml''"
  proof -
    let ?x = "replace content cap_drop_active cap_drop_commented"
    have rd2: "read_text w2 ''docker-compose.yml'' = Inr ?x" using same one[OF pp] by simp
    have com: "str_in cap_drop_commented ?x" by (rule cap_drop_commented_in[OF act])
    have "replace ?x cap_drop_commented cap_drop_active = content" by (rule cap_drop_round_trip)
    then show ?thesis
      using check_and_fix_restore[OF rd2 np com] nocr
      by (intro read_text_manifest_written) simp_all
  qed
  show ?thesis using one two three by blast
qed

theorem check_and_fix_round_trip_witness:
  "read_text example_world ''docker-compose.yml'' = Inr ''    cap_drop: - ALL\<newline>''
   \<and> str_in cap_drop_active ''    cap_drop: - ALL\<newline>''
   \<and> placeholder_present example_world
   \<and> read_text (check_and_fix_docker_compose_for_searxng example_world) ''docker-compose.yml'' =
       Inr ''    # cap_drop: - ALL  # Temporarily commented out for first run\<newline>''
   \<and> \<not> placeholder_present example_initialized
   \<and> read_text example_initialized ''docker-compose.yml'' =
       read_text (check_and_fix_docker_compose_for_searxng example_world) ''docker-compose.yml''
   \<and> read_text (check_and_fix_docker_compose_for_searxng example_initialized) ''docker-compose.yml'' =
       Inr ''    cap_drop: - ALL\<newline>''"
proof -
  let ?c = "''    cap_drop: - ALL\<newline>''"
  let ?d = "''    # cap_drop: - ALL  # Temporarily commented out for first run\<newline>''"
  have rd: "read_text example_world ''docker-compose.yml'' = Inr ?c" by code_simp
  have act: "str_in cap_drop_active ?c" by code_simp
  have pp: "placeholder_present example_world" by code_simp
  have np: "\<not> placeholder_present example_initialized" by code_simp
  have rd2: "read_text example_initialized ''docker-compose.yml'' = Inr ?d" by code_simp
  have r: "replace ?c cap_drop_active cap_drop_commented = ?d" by code_simp
  note t = check_and_fix_round_trip[OF rd act, of example_initialized]
  have one: "read_text (check_and_fix_docker_compose_for_searxng example_world) ''docker-compose.yml'' = Inr ?d"
    using t pp r by simp
  have same: "read_text example_initialized ''docker-compose.yml'' =
       read_text (check_and_fix_docker_compose_for_searxng example_world) ''docker-compose.yml''"
    using rd2 one by simp
  have three: "read_text (check_and_fix_docker_compose_for_searxng example_initialized) ''docker-compose.yml'' = Inr ?c"
    using t pp np same by blast
  show ?thesis using rd act pp one np same three by blast
qed

lemma generate_without_base:
  assumes "\<not> path_exists w ''searxng/settings-base.yml''"
  shows "generate_searxng_secret_key random_key w =
           print ''Warning: SearXNG base settings file not found at searxng/settings-base.yml''
             (print ''Checking SearXNG settings...'' w)"
  using assms by (simp add: generate_searxng_secret_key_def Let_def)

theorem generate_searxng_secret_key_counterexample:
  "read_text (without [''srv'', ''searxng'', ''settings-base.yml''] example_world)
      ''searxng/settings.yml'' = Inr ''secret_key: ultrasecretkey\<newline>''
   \<and> str_in ''ultrasecretkey'' ''secret_key: ultrasecretkey\<newline>''
   \<and> token_hex32 example_key
   \<and> read_text (generate_searxng_secret_key example_key
         (without [''srv'', ''searxng'', ''settings-base.yml''] example_world))
      ''searxng/settings.yml'' = Inr ''secret_key: ultrasecretkey\<newline>''"
proof -
  let ?w = "without [''srv'', ''searxng'', ''settings-base.yml''] example_world"
  have h: "\<not> path_exists ?w ''searxng/settings-base.yml''" by code_simp
  have rd: "read_text ?w ''searxng/settings.yml'' = Inr ''secret_key: ultrasecretkey\<newline>''"
    by code_simp
  have ph: "str_in ''ultrasecretkey'' ''secret_key: ultrasecretkey\<newline>''" by code_simp
  have tok: "token_hex32 example_key" by code_simp
  show ?thesis using rd ph tok by (simp add: generate_without_base[OF h])
qed

theorem generate_searxng_secret_key_once_witness:
  "path_exists example_world ''searxng/settings-base.yml''
   \<and> read_text example_world ''searxng/settings.yml'' = Inr ''secret_key: ultrasecretkey\<newline>''
   \<and> str_in ''ultrasecretkey'' ''secret_key: ultrasecretkey\<newline>''
   \<and> token_hex32 example_key
   \<and> read_text (generate_searxng_secret_key example_key example_world) ''searxng/settings.yml'' =
       Inr ''secret_key: 00112233445566778899aabbccddeeff00112233445566778899aabbccddeeff\<newline>''
   \<and> files (generate_searxng_secret_key (replicate 64 CHR ''f'')
               (generate_searxng_secret_key example_key example_world)) =
       files (generate_searxng_secret_key example_key example_world)"
proof -
  have base: "path_exists example_world ''searxng/settings-base.yml''" by code_simp
  have rd: "read_text example_world ''searxng/settings.yml'' = Inr ''secret_key: ultrasecretkey\<newline>''"
    by code_simp
  have ph: "str_in ''ultrasecretkey'' ''secret_key: ultrasecretkey\<newline>''" by code_simp
  have tok: "token_hex32 example_key" by code_simp
  have r: "replace ''secret_key: ultrasecretkey\<newline>'' ''ultrasecretkey'' example_key =
      ''secret_key: 00112233445566778899aabbccddeeff00112233445566778899aabbccddeeff\<newline>''"
    by code_simp
  show ?thesis
    using base rd ph tok r
      generate_searxng_secret_key_once[OF base rd ph tok, of "replicate 64 CHR ''f''"]
    by simp
qed

subsection \<open>The secret files\<close>

lemma unpack2_Inr: "unpack2 xs = Inr (a, b) \<longleftrightarrow> xs = [a, b]"
  by (auto simp: unpack2_def split: list.splits)

lemma write_text_ok:
  assumes "write_text p d w = (Inr u, w')"
  shows "\<exists>q. resolve w p = Entry q \<and> map_of (files w) q \<noteq> Some Dir
             \<and> w' = w\<lparr>files := AList.update q (File d) (files w)\<rparr>"
  using assms by (auto simp: write_text_def split: if_splits target.splits)

lemma write_secrets_step:
  assumes "write_secrets (line # rest) w = (Inr u, w')" "has_marker line"
  shows "\<exists>key val q. split1 CHR ''='' line = [key, val]
           \<and> resolve w (path_join secrets_path (lower key)) = Entry q
           \<and> map_of (files w) q \<noteq> Some Dir
           \<and> write_secrets rest (w\<lparr>files := AList.update q (File (secret_value val)) (files w)\<rparr>)
               = (Inr u, w')"
proof -
  obtain key val where kv: "unpack2 (split1 CHR ''='' line) = Inr (key, val)"
    using assms by (cases "unpack2 (split1 CHR ''='' line)") auto
  obtain r w1 where wt: "write_text (path_join secrets_path (lower key)) (secret_value val) w = (r, w1)"
    by (cases "write_text (path_join secrets_path (lower key)) (secret_value val) w")
  obtain u1 where r: "r = Inr u1" using assms kv wt by (cases r) auto
  have rest: "write_secrets rest w1 = (Inr u, w')" using assms kv wt r by simp
  from write_text_ok[OF wt[unfolded r]] obtain q where
    q: "resolve w (path_join secrets_path (lower key)) = Entry q" "map_of (files w) q \<noteq> Some Dir"
       "w1 = w\<lparr>files := AList.update q (File (secret_value val)) (files w)\<rparr>"
    by blast
  show ?thesis using kv q rest by (auto simp: unpack2_Inr)
qed

lemma write_secrets_frame:
  "write_secrets ls w = (Inr u, w') \<Longrightarrow>
     cwd w' = cwd w \<and> trace w' = trace w
     \<and> (\<forall>x. (map_of (files w') x = Some Dir) = (map_of (files w) x = Some Dir))
     \<and> (\<forall>x. (\<exists>c. map_of (files w) x = Some (File c)) \<longrightarrow> (\<exists>c. map_of (files w') x = Some (File c)))"
proof (induction ls arbitrary: w)
  case Nil
  then show ?case by simp
next
  case (Cons line rest)
  show ?case
  proof (cases "has_marker line")
    case False
    then show ?thesis using Cons by simp
  next
    case True
    from write_secrets_step[OF Cons.prems True] obtain key val q where
      q: "map_of (files w) q \<noteq> Some Dir"
         "write_secrets rest (w\<lparr>files := AList.update q (File (secret_value val)) (files w)\<rparr>)
               = (Inr u, w')"
      by blast
    let ?w1 = "w\<lparr>files := AList.update q (File (secret_value val)) (files w)\<rparr>"
    note ih = Cons.IH[OF q(2)]
    have d: "(map_of (files ?w1) x = Some Dir) = (map_of (files w) x = Some Dir)" for x
      using q(1) by (simp add: update_conv)
    have f: "\<exists>c. map_of (files ?w1) x = Some (File c)" if "\<exists>c. map_of (files w) x = Some (File c)" for x
      using that by (simp add: update_conv)
    show ?thesis using ih d f by simp
  qed
qed

lemma write_secrets_resolve:
  assumes "write_secrets ls w = (Inr u, w')"
  shows "resolve w' p = resolve w p"
  using write_secrets_frame[OF assms] by (intro resolve_dirs_cong) simp_all

lemma isfile_entry:
  "resolve w p = Entry q \<Longrightarrow> isfile w p = (\<exists>c. map_of (files w) q = Some (File c))"
  by (auto simp: isfile_def split: option.splits node.splits)

lemma write_secrets_creates:
  "write_secrets ls w = (Inr u, w') \<Longrightarrow> line \<in> set ls \<Longrightarrow> has_marker line \<Longrightarrow>
     \<exists>key val. split1 CHR ''='' line = [key, val] \<and> isfile w' (path_join secrets_path (lower key))"
proof (induction ls arbitrary: w)
  case Nil
  then show ?case by simp
next
  case (Cons l rest)
  show ?case
  proof (cases "has_marker l")
    case False
    then have "write_secrets rest w = (Inr u, w')" "line \<in> set rest"
      using Cons.prems by auto
    then show ?thesis using Cons.IH Cons.prems(3) by blast
  next
    case True
    from write_secrets_step[OF Cons.prems(1) True] obtain key val q where
      q: "split1 CHR ''='' l = [key, val]"
         "resolve w (path_join secrets_path (lower key)) = Entry q"
         "write_secrets rest (w\<lparr>files := AList.update q (File (secret_value val)) (files w)\<rparr>)
               = (Inr u, w')"
      by blast
    let ?w1 = "w\<lparr>files := AList.update q (File (secret_value val)) (files w)\<rparr>"
    show ?thesis
    proof (cases "line = l")
      case True
      have "\<exists>c. map_of (files ?w1) q = Some (File c)" by (simp add: update_conv)
      then have "\<exists>c. map_of (files w') q = Some (File c)"
        using write_secrets_frame[OF q(3)] by blast
      moreover have "resolve w' (path_join secrets_path (lower key)) = Entry q"
      proof -
        have "resolve w' (path_join secrets_path (lower key)) =
              resolve ?w1 (path_join secrets_path (lower key))"
          by (rule write_secrets_resolve[OF q(3)])
        also have "\<dots> = resolve w (path_join secrets_path (lower key))"
          using write_secrets_resolve[OF Cons.prems(1)] write_secrets_resolve[OF q(3)] by metis
        finally show ?thesis using q(2) by simp
      qed
      ultimately have "isfile w' (path_join secrets_path (lower key))" by (simp add: isfile_entry)
      then show ?thesis using q(1) True by blast
    next
      case False
      then have "line \<in> set rest" using Cons.prems(2) by simp
      then show ?thesis using Cons.IH[OF q(3)] Cons.prems(3) by blast
    qed
  qed
qed

lemma write_secrets_only:
  "write_secrets ls w = (Inr u, w') \<Longrightarrow> map_of (files w') x = Some (File c) \<Longrightarrow>
     map_of (files w) x = Some (File c) \<or>
     (\<exists>line\<in>set ls. has_marker line \<and>
        (\<exists>key val. split1 CHR ''='' line = [key, val]
           \<and> resolve w (path_join secrets_path (lower key)) = Entry x \<and> c = secret_value val))"
proof (induction ls arbitrary: w)
  case Nil
  then show ?case by simp
next
  case (Cons l rest)
  show ?case
  proof (cases "has_marker l")
    case False
    then have "write_secrets rest w = (Inr u, w')" using Cons.prems by auto
    from Cons.IH[OF this Cons.prems(2)] show ?thesis by auto
  next
    case True
    from write_secrets_step[OF Cons.prems(1) True] obtain key val q where
      q: "split1 CHR ''='' l = [key, val]"
         "resolve w (path_join secrets_path (lower key)) = Entry q"
         "write_secrets rest (w\<lparr>files := AList.update q (File (secret_value val)) (files w)\<rparr>)
               = (Inr u, w')"
      by blast
    let ?w1 = "w\<lparr>files := AList.update q (File (secret_value val)) (files w)\<rparr>"
    have res: "resolve ?w1 p = resolve w p" for p
      using write_secrets_resolve[OF Cons.prems(1)] write_secrets_resolve[OF q(3)] by metis
    from Cons.IH[OF q(3) Cons.prems(2)] consider
      (old) "map_of (files ?w1) x = Some (File c)"
      | (new) line where "line \<in> set rest" "has_marker line"
          "\<exists>key val. split1 CHR ''='' line = [key, val]
             \<and> resolve ?w1 (path_join secrets_path (lower key)) = Entry x \<and> c = secret_value val"
      by blast
    then show ?thesis
    proof cases
      case old
      show ?thesis
      proof (cases "x = q")
        case True
        then have "c = secret_value val" using old by (simp add: update_conv)
        then show ?thesis using True q(1,2) \<open>has_marker l\<close> by auto
      next
        case False
        then have "map_of (files w) x = Some (File c)" using old by (simp add: update_conv)
        then show ?thesis by blast
      qed
    next
      case new
      then show ?thesis using res by auto
    qed
  qed
qed

lemma isfile_print [simp]: "isfile (print s w) p = isfile w p"
  by (simp add: isfile_def split: target.split)

text \<open>
  C1, as amended. The test for a marker is made on the whole line, not on its key. When
  \<open>prepare_env\<close> returns normally, every line of \<open>.env\<close> that is neither blank nor a comment and
  holds a marker somewhere, in its key or in its value, has the form \<open>key=value\<close> and its
  file, named by the key in lower case, is there; and every file that is there afterwards
  and was not there before with the same content is the file of such a line and holds its
  value. So a line without any marker produces no file, and a line whose value alone holds
  a marker produces one.
\<close>

theorem prepare_env_secret_files:
  assumes ok: "prepare_env w = (Inr (), w')" and rd: "read_text w env_path = Inr content"
  shows "(\<forall>line\<in>set (env_lines content). has_marker line \<longrightarrow>
            (\<exists>key val. split1 CHR ''='' line = [key, val]
               \<and> isfile w' (path_join secrets_path (lower key))))
       \<and> (\<forall>x c. map_of (files w') x = Some (File c) \<longrightarrow>
            map_of (files w) x = Some (File c) \<or>
            (\<exists>line\<in>set (env_lines content). has_marker line \<and>
               (\<exists>key val. split1 CHR ''='' line = [key, val]
                  \<and> resolve w' (path_join secrets_path (lower key)) = Entry x
                  \<and> c = secret_value val)))"
proof -
  have nf: "\<not> isfile w secrets_path" using prepare_env_cases[of w] ok by auto
  from prepare_env_reads_env[OF nf] obtain w3 where
    w3: "map_of (files w3) (secrets_dir w) = Some Dir"
    "\<forall>q. q \<noteq> secrets_dir w \<longrightarrow> map_of (files w3) q =
               (if (\<exists>n. valid_name n \<and> q = secrets_dir w @ [n]) \<and>
                   (\<exists>c. map_of (files w) q = Some (File c))
                then None else map_of (files w) q)"
    "prepare_env w =
            (case read_text w env_path of
               Inl e \<Rightarrow> (Inl e, w3)
             | Inr content \<Rightarrow>
                 (case write_secrets (env_lines content) w3 of
                    (Inl e, w4) \<Rightarrow> (Inl e, w4)
                  | (Inr u, w4) \<Rightarrow> (Inr (), print ''Secrets prepared.'' w4)))"
    by blast
  obtain r w4 where ws: "write_secrets (env_lines content) w3 = (r, w4)"
    by (cases "write_secrets (env_lines content) w3")
  obtain u where r: "r = Inr u" using w3(3) ok rd ws by (cases r) auto
  have w': "w' = print ''Secrets prepared.'' w4" using w3(3) ok rd ws r by simp
  note ws = ws[unfolded r]
  have a: "\<exists>key val. split1 CHR ''='' line = [key, val] \<and> isfile w' (path_join secrets_path (lower key))"
    if "line \<in> set (env_lines content)" "has_marker line" for line
    using write_secrets_creates[OF ws that] by (simp add: w')
  have b: "map_of (files w) x = Some (File c) \<or>
            (\<exists>line\<in>set (env_lines content). has_marker line \<and>
               (\<exists>key val. split1 CHR ''='' line = [key, val]
                  \<and> resolve w' (path_join secrets_path (lower key)) = Entry x
                  \<and> c = secret_value val))"
    if "map_of (files w') x = Some (File c)" for x c
  proof -
    have "map_of (files w4) x = Some (File c)" using that by (simp add: w')
    from write_secrets_only[OF ws this] show ?thesis
    proof
      assume f: "map_of (files w3) x = Some (File c)"
      then have "x \<noteq> secrets_dir w" using w3(1) by auto
      then have "map_of (files w) x = Some (File c)"
        using spec[OF w3(2), of x] f by (auto split: if_splits)
      then show ?thesis by blast
    next
      assume "\<exists>line\<in>set (env_lines content). has_marker line \<and>
        (\<exists>key val. split1 CHR ''='' line = [key, val]
           \<and> resolve w3 (path_join secrets_path (lower key)) = Entry x \<and> c = secret_value val)"
      moreover have "resolve w' p = resolve w3 p" for p
        using write_secrets_resolve[OF ws, of p] by (simp add: w')
      ultimately show ?thesis by simp
    qed
  qed
  show ?thesis using a b by blast
qed

theorem prepare_env_value_marker_counterexample:
  "env_lines ''HOST=KEYSTONE\<newline>'' = [''HOST=KEYSTONE'']
   \<and> split1 CHR ''='' ''HOST=KEYSTONE'' = [''HOST'', ''KEYSTONE'']
   \<and> \<not> has_marker ''HOST''
   \<and> read_text example_value_marker env_path = Inr ''HOST=KEYSTONE\<newline>''
   \<and> \<not> path_exists example_value_marker ''.secrets/host''
   \<and> fst (prepare_env example_value_marker) = Inr ()
   \<and> read_bytes (snd (prepare_env example_value_marker)) ''.secrets/host'' = Inr ''KEYSTONE''"
proof -
  have "env_lines ''HOST=KEYSTONE\<newline>'' = [''HOST=KEYSTONE'']" by code_simp
  moreover have "split1 CHR ''='' ''HOST=KEYSTONE'' = [''HOST'', ''KEYSTONE'']" by code_simp
  moreover have "\<not> has_marker ''HOST''" by code_simp
  moreover have "read_text example_value_marker env_path = Inr ''HOST=KEYSTONE\<newline>''" by code_simp
  moreover have "\<not> path_exists example_value_marker ''.secrets/host''" by code_simp
  moreover have "fst (prepare_env example_value_marker) = Inr ()" by code_simp
  moreover have "read_bytes (snd (prepare_env example_value_marker)) ''.secrets/host'' = Inr ''KEYSTONE''"
    by code_simp
  ultimately show ?thesis by blast
qed

theorem prepare_env_secret_files_witness:
  "fst (prepare_env example_world) = Inr ()
   \<and> read_text example_world env_path = Inr ''DB_PASSWORD=secr3t\<newline>HOST=localhost\<newline>''
   \<and> env_lines ''DB_PASSWORD=secr3t\<newline>HOST=localhost\<newline>'' = [''DB_PASSWORD=secr3t'', ''HOST=localhost'']
   \<and> has_marker ''DB_PASSWORD=secr3t''
   \<and> isfile (snd (prepare_env example_world)) ''.secrets/db_password''"
proof -
  let ?w' = "snd (prepare_env example_world)"
  let ?content = "''DB_PASSWORD=secr3t\<newline>HOST=localhost\<newline>''"
  have f: "fst (prepare_env example_world) = Inr ()" by code_simp
  then have ok: "prepare_env example_world = (Inr (), ?w')" by (simp add: prod_eq_iff)
  have rd: "read_text example_world env_path = Inr ?content" by code_simp
  have ls: "env_lines ?content = [''DB_PASSWORD=secr3t'', ''HOST=localhost'']" by code_simp
  have m1: "has_marker ''DB_PASSWORD=secr3t''" by code_simp
  have s1: "split1 CHR ''='' ''DB_PASSWORD=secr3t'' = [''DB_PASSWORD'', ''secr3t'']" by code_simp
  have p1: "path_join secrets_path (lower ''DB_PASSWORD'') = ''.secrets/db_password''" by code_simp
  have mem: "''DB_PASSWORD=secr3t'' \<in> set (env_lines ?content)" unfolding ls by simp
  from prepare_env_secret_files[OF ok rd] mem m1 obtain key val where
    kv: "split1 CHR ''='' ''DB_PASSWORD=secr3t'' = [key, val]"
        "isfile ?w' (path_join secrets_path (lower key))"
    by blast
  have "key = ''DB_PASSWORD''" using kv(1) unfolding s1 by simp
  then have a: "isfile ?w' ''.secrets/db_password''" using kv(2) p1 by simp
  show ?thesis using f rd ls m1 a by blast
qed

subsection \<open>The processes of a run\<close>

lemma write_text_executed [simp]: "executed (snd (write_text p d w)) = executed w"
  by (simp add: write_text_def executed_def split: target.split)

lemma copyfile_executed [simp]: "executed (snd (copyfile src dst w)) = executed w"
  by (simp add: copyfile_def split: sum.split)

lemma generate_searxng_secret_key_executed:
  "executed (generate_searxng_secret_key key w) = executed w"
  unfolding generate_searxng_secret_key_def Let_def
  by (simp add: case_prod_beta split: sum.split)

lemma check_and_fix_executed:
  "executed (check_and_fix_docker_compose_for_searxng w) = executed w"
  unfolding check_and_fix_docker_compose_for_searxng_def Let_def
  by (simp add: case_prod_beta split: sum.split)

lemma prepare_env_executed:
  assumes "prepare_env w = (Inr u, w')"
  shows "executed w' = executed w"
proof -
  have nf: "\<not> isfile w secrets_path" using prepare_env_cases[of w] assms by auto
  from prepare_env_cases[of w] nf obtain w3 where
    w3: "trace w3 = trace w @ [Print preparing]"
    "prepare_env w =
            (case read_text w3 env_path of
               Inl e \<Rightarrow> (Inl e, w3)
             | Inr content \<Rightarrow>
                 (case write_secrets (env_lines content) w3 of
                    (Inl e, w4) \<Rightarrow> (Inl e, w4)
                  | (Inr u, w4) \<Rightarrow> (Inr (), print ''Secrets prepared.'' w4)))"
    by blast
  obtain content where rd: "read_text w3 env_path = Inr content"
    using w3(2) assms by (cases "read_text w3 env_path") auto
  obtain r w4 where ws: "write_secrets (env_lines content) w3 = (r, w4)"
    by (cases "write_secrets (env_lines content) w3")
  obtain u' where r: "r = Inr u'" using w3(2) assms rd ws by (cases r) auto
  have w': "w' = print ''Secrets prepared.'' w4" using w3(2) assms rd ws r by simp
  have "trace w4 = trace w3" using write_secrets_frame[OF ws[unfolded r]] by simp
  then show ?thesis using w3(1) by (simp add: w' executed_def)
qed

lemma run_command_prefix: "prefix (executed w) (executed (snd (run_command sh cmd w)))"
  by (simp add: run_command_fields)

lemma pull_each_prefix: "prefix (executed w) (executed (snd (pull_each sh fs w)))"
proof (induction fs arbitrary: w)
  case Nil
  then show ?case by simp
next
  case (Cons f fs)
  let ?cmd = "[''docker'', ''compose'', ''-p'', ''insights-lm'', ''--env-file'', ''.env'', ''-f'', f, ''pull'']"
  let ?w1 = "print (''Pulling latest images for '' @ f @ ''...'') w"
  obtain r w2 where rc: "run_command sh ?cmd ?w1 = (r, w2)" by (cases "run_command sh ?cmd ?w1")
  have p: "prefix (executed w) (executed w2)"
    using run_command_prefix[of ?w1 sh ?cmd] rc by simp
  show ?case
  proof (cases r)
    case (Inl e)
    then show ?thesis using rc p by (simp add: Let_def)
  next
    case (Inr y)
    have "prefix (executed w2) (executed (snd (pull_each sh fs w2)))" by (rule Cons.IH)
    then show ?thesis using rc p Inr by (auto simp: Let_def intro: prefix_order.trans)
  qed
qed

lemma pull_docker_images_prefix:
  "prefix (executed w) (executed (snd (pull_docker_images sh fs upd w)))"
proof -
  let ?chk = "[''docker'', ''image'', ''ls'', ''ollama/ollama:latest'']"
  have e: "executed (snd (subprocess_run sh ?chk w)) = executed w @ [?chk]"
    by (simp add: subprocess_run_def Let_def executed_def split: option.split)
  obtain r w1 where sr: "subprocess_run sh ?chk w = (r, w1)" by (cases "subprocess_run sh ?chk w")
  have p: "prefix (executed w) (executed w1)" using e sr by simp
  show ?thesis
  proof (cases r)
    case (Inl e)
    then show ?thesis using sr p by (simp add: pull_docker_images_def)
  next
    case (Inr out)
    have "prefix (executed w1) (executed (snd (pull_each sh fs w1)))" by (rule pull_each_prefix)
    then have "prefix (executed w) (executed (snd (pull_each sh fs w1)))"
      using p by (rule prefix_order.trans[rotated])
    then show ?thesis using sr p Inr by (simp add: pull_docker_images_def)
  qed
qed

lemma start_insights_lm_prefix:
  "prefix (executed w) (executed (snd (start_insights_lm sh project prof env extra w)))"
proof -
  let ?w1 = "print ''Starting Insights LM services...'' w"
  obtain cmd w2 where dc: "docker_compose project prof env extra ''.env'' ?w1 = (cmd, w2)"
    by (cases "docker_compose project prof env extra ''.env'' ?w1")
  have w2: "executed w2 = executed w"
    using docker_compose_print(4)[of project prof env extra "''.env''" ?w1] dc by simp
  obtain r w3 where rc: "run_command sh (cmd @ [''up'', ''-d'']) w2 = (r, w3)"
    by (cases "run_command sh (cmd @ [''up'', ''-d'']) w2")
  have "prefix (executed w2) (executed w3)"
    using run_command_prefix[of w2 sh "cmd @ [''up'', ''-d'']"] rc by simp
  then show ?thesis using dc rc w2 by (cases r) (simp_all add: start_insights_lm_def Let_def)
qed

text \<open>
  C3. \<open>main\<close> calls \<open>stop_existing_containers(args.profile)\<close>: the profile arrives as the first
  argument, the project, which that function does not use, and the function calls
  \<open>docker_compose\<close> without a project. So in every run without the config-only flag in which
  \<open>prepare_env\<close> returns, the first process started is the \<open>down\<close> command below, which has
  no \<open>-p\<close> flag and does not name \<open>insights-lm\<close>.
\<close>

theorem main_stop_phase_command:
  assumes "\<not> config a" and "prepare_env w = (Inr (), w1)"
  shows "prefix (executed w @
                 [[''docker'', ''compose'', ''--env-file'', ''.env'', ''-f'', ''docker-compose.yml'',
                   ''-f'', ''docker-compose.override.yml'', ''down'']])
                (executed (snd (main sh random_key a w)))"
proof -
  let ?down = "[''docker'', ''compose'', ''--env-file'', ''.env'', ''-f'', ''docker-compose.yml'',
                   ''-f'', ''docker-compose.override.yml'', ''down'']"
  let ?w3 = "check_and_fix_docker_compose_for_searxng (generate_searxng_secret_key random_key w1)"
  let ?fs = "[''docker-compose.yml'', ''local-ai-packaged/docker-compose.yml'',
              ''supabase-insights-lm/docker-compose.yml''] @ compose_files a"
  have e3: "executed ?w3 = executed w"
    using prepare_env_executed[OF assms(2)]
    by (simp add: check_and_fix_executed generate_searxng_secret_key_executed)
  obtain r w4 where st: "stop_existing_containers sh (Some (profile a)) None ?w3 = (r, w4)"
    by (cases "stop_existing_containers sh (Some (profile a)) None ?w3")
  have e4: "executed w4 = executed w @ [?down]"
    using stop_existing_containers_command[of sh "Some (profile a)" ?w3] st e3 by simp
  show ?thesis
  proof (cases r)
    case (Inl e)
    then have "snd (main sh random_key a w) = w4" using assms st by (simp add: main_def Let_def)
    then show ?thesis using e4 by simp
  next
    case (Inr u)
    obtain r5 w5 where pl: "pull_docker_images sh ?fs (update a) w4 = (r5, w5)"
      by (cases "pull_docker_images sh ?fs (update a) w4")
    have p5: "prefix (executed w4) (executed w5)"
      using pull_docker_images_prefix[of w4 sh ?fs "update a"] pl by simp
    show ?thesis
    proof (cases r5)
      case (Inl e)
      then have "snd (main sh random_key a w) = w5"
        using assms st Inr pl by (simp add: main_def Let_def)
      then show ?thesis using p5 e4 by simp
    next
      case (Inr u5)
      have "snd (main sh random_key a w) =
              snd (start_insights_lm sh (Some (name a)) (Some (profile a)) (Some (environment a))
                     (compose_files a) w5)"
        using assms st \<open>r = Inr u\<close> pl Inr by (simp add: main_def Let_def)
      moreover have "prefix (executed w5)
          (executed (snd (start_insights_lm sh (Some (name a)) (Some (profile a))
                            (Some (environment a)) (compose_files a) w5)))"
        by (rule start_insights_lm_prefix)
      ultimately show ?thesis using p5 e4 by (metis prefix_order.trans)
    qed
  qed
qed

theorem main_stop_phase_command_witness:
  "\<not> config default_args
   \<and> fst (prepare_env example_world) = Inr ()
   \<and> prefix [[''docker'', ''compose'', ''--env-file'', ''.env'', ''-f'', ''docker-compose.yml'',
              ''-f'', ''docker-compose.override.yml'', ''down'']]
            (executed (snd (main (\<lambda>n c. Some []) example_key default_args example_world)))"
proof -
  have c: "\<not> config default_args" by (simp add: default_args_def)
  have f: "fst (prepare_env example_world) = Inr ()" by code_simp
  then have ok: "prepare_env example_world = (Inr (), snd (prepare_env example_world))"
    by (simp add: prod_eq_iff)
  have e: "executed example_world = []" by (simp add: executed_def example_world_def)
  show ?thesis
    using c f main_stop_phase_command[OF c ok, of "\<lambda>n c. Some []" example_key] e by simp
qed

subsection \<open>An extra overlay file that does not exist\<close>

lemma run_command_result:
  "fst (run_command sh cmd w) = Inr out \<longleftrightarrow> sh (length (executed w)) cmd = Some out"
  "fst (run_command sh cmd w) = Inl e \<longleftrightarrow> sh (length (executed w)) cmd = None \<and> e = CalledProcessError"
  by (auto simp: run_command_fields split: option.splits)

lemma pull_each_fails:
  "f \<in> set fs \<Longrightarrow> (\<And>n. sh n (pull_command f) = None)
     \<Longrightarrow> fst (pull_each sh fs w) = Inl CalledProcessError"
proof (induction fs arbitrary: w)
  case Nil
  then show ?case by simp
next
  case (Cons g fs)
  let ?w1 = "print (''Pulling latest images for '' @ g @ ''...'') w"
  obtain r w2 where rc: "run_command sh (pull_command g) ?w1 = (r, w2)"
    by (cases "run_command sh (pull_command g) ?w1")
  have step: "pull_each sh (g # fs) w =
                (case r of Inl e \<Rightarrow> (Inl e, w2) | Inr y \<Rightarrow> pull_each sh fs w2)"
    using rc by (simp add: Let_def pull_command_def split: sum.split)
  show ?case
  proof (cases r)
    case (Inl e)
    then have "e = CalledProcessError"
      using run_command_result(2)[of sh "pull_command g" ?w1 e] rc by simp
    then show ?thesis using step Inl by simp
  next
    case (Inr y)
    then have "sh (length (executed ?w1)) (pull_command g) = Some y"
      using run_command_result(1)[of sh "pull_command g" ?w1 y] rc by simp
    then have "g \<noteq> f" using Cons.prems(2)[of "length (executed ?w1)"] by auto
    then have "f \<in> set fs" using Cons.prems(1) by simp
    then have "fst (pull_each sh fs w2) = Inl CalledProcessError"
      using Cons.IH Cons.prems(2) by blast
    then show ?thesis using step Inr by simp
  qed
qed

lemma pull_each_succeeds:
  "(\<And>g n. g \<in> set fs \<Longrightarrow> sh n (pull_command g) \<noteq> None) \<Longrightarrow> fst (pull_each sh fs w) = Inr ()"
proof (induction fs arbitrary: w)
  case Nil
  then show ?case by simp
next
  case (Cons g fs)
  let ?w1 = "print (''Pulling latest images for '' @ g @ ''...'') w"
  obtain r w2 where rc: "run_command sh (pull_command g) ?w1 = (r, w2)"
    by (cases "run_command sh (pull_command g) ?w1")
  have step: "pull_each sh (g # fs) w =
                (case r of Inl e \<Rightarrow> (Inl e, w2) | Inr y \<Rightarrow> pull_each sh fs w2)"
    using rc by (simp add: Let_def pull_command_def split: sum.split)
  have "sh (length (executed ?w1)) (pull_command g) \<noteq> None"
    by (rule Cons.prems) simp
  then obtain y where y: "r = Inr y"
    using run_command_fields(4)[of sh "pull_command g" ?w1] rc
    by (cases r) (auto split: option.splits)
  have "fst (pull_each sh fs w2) = Inr ()"
  proof (rule Cons.IH)
    fix h n assume "h \<in> set fs"
    then have "h \<in> set (g # fs)" by simp
    then show "sh n (pull_command h) \<noteq> None" by (rule Cons.prems)
  qed
  then show ?case using step y by simp
qed

lemma pull_command_inject [simp]: "pull_command g = pull_command f \<longleftrightarrow> g = f"
  by (simp add: pull_command_def)

lemma stop_existing_containers_ok:
  assumes "\<And>n cmd. last cmd = ''down'' \<Longrightarrow> sh n cmd \<noteq> None"
  shows "fst (stop_existing_containers sh project prof w) = Inr ()"
proof -
  let ?w1 = "print (''Stopping and removing existing containers for the unified project '' @
                      [CHR 0x27] @ ''insights-lm'' @ [CHR 0x27] @ ''...'') w"
  obtain cmd w2 where dc: "docker_compose None prof None [] ''.env'' ?w1 = (cmd, w2)"
    by (cases "docker_compose None prof None [] ''.env'' ?w1")
  obtain r w3 where rc: "run_command sh (cmd @ [''down'']) w2 = (r, w3)"
    by (cases "run_command sh (cmd @ [''down'']) w2")
  have "sh (length (executed w2)) (cmd @ [''down'']) \<noteq> None" by (rule assms) simp
  then obtain y where "r = Inr y"
    using run_command_fields(4)[of sh "cmd @ [''down'']" w2] rc by (cases r) (auto split: option.splits)
  then show ?thesis using dc rc by (simp add: stop_existing_containers_def Let_def)
qed

lemma start_insights_lm_ok:
  assumes "\<And>n cmd. last cmd = ''-d'' \<Longrightarrow> sh n cmd \<noteq> None"
  shows "fst (start_insights_lm sh project prof env extra w) = Inr ()"
proof -
  let ?w1 = "print ''Starting Insights LM services...'' w"
  obtain cmd w2 where dc: "docker_compose project prof env extra ''.env'' ?w1 = (cmd, w2)"
    by (cases "docker_compose project prof env extra ''.env'' ?w1")
  obtain r w3 where rc: "run_command sh (cmd @ [''up'', ''-d'']) w2 = (r, w3)"
    by (cases "run_command sh (cmd @ [''up'', ''-d'']) w2")
  have "sh (length (executed w2)) (cmd @ [''up'', ''-d'']) \<noteq> None" by (rule assms) simp
  then obtain y where "r = Inr y"
    using run_command_fields(4)[of sh "cmd @ [''up'', ''-d'']" w2] rc
    by (cases r) (auto split: option.splits)
  then show ?thesis using dc rc by (simp add: start_insights_lm_def Let_def)
qed

lemma pull_docker_images_update:
  assumes "sh (length (executed w)) [''docker'', ''image'', ''ls'', ''ollama/ollama:latest''] \<noteq> None"
  shows "pull_docker_images sh fs True w =
           pull_each sh fs (w\<lparr>trace := trace w @ [Exec [''docker'', ''image'', ''ls'', ''ollama/ollama:latest'']]\<rparr>)"
  using assms by (auto simp: pull_docker_images_def subprocess_run_def Let_def)

text \<open>
  C7. \<open>docker_compose\<close> leaves an extra overlay file that does not exist out of the command
  it builds (\<open>docker_compose_extra_files\<close> above), but \<open>main\<close> gives the same list, unfiltered,
  to \<open>pull_docker_images\<close>, which runs a pull for every file in it. So the file does make
  the run fail: in a run with the update flag where \<open>prepare_env\<close> returns and the container
  CLI fails on the pull for the file \<open>f\<close> and on nothing else, \<open>main\<close> ends with the error of
  that process when \<open>f\<close> is among the extra overlay files, and returns normally when \<open>f\<close> is
  not among the files pulled.
\<close>

theorem main_missing_overlay_file:
  assumes "\<not> config a" and "prepare_env w = (Inr (), w1)" and "update a"
    and sh: "\<And>n cmd. (sh n cmd = None) = (cmd = pull_command f)"
  shows "(f \<in> set (compose_files a) \<longrightarrow> fst (main sh random_key a w) = Inl CalledProcessError)
       \<and> (f \<notin> set ([''docker-compose.yml'', ''local-ai-packaged/docker-compose.yml'',
                      ''supabase-insights-lm/docker-compose.yml''] @ compose_files a)
            \<longrightarrow> fst (main sh random_key a w) = Inr ())"
proof -
  let ?w3 = "check_and_fix_docker_compose_for_searxng (generate_searxng_secret_key random_key w1)"
  let ?fs = "[''docker-compose.yml'', ''local-ai-packaged/docker-compose.yml'',
              ''supabase-insights-lm/docker-compose.yml''] @ compose_files a"
  let ?chk = "[''docker'', ''image'', ''ls'', ''ollama/ollama:latest'']"
  have other: "sh n cmd \<noteq> None" if "last cmd \<noteq> ''pull''" for n cmd
  proof -
    have "cmd \<noteq> pull_command f" using that by (auto simp: pull_command_def)
    then show ?thesis using sh by simp
  qed
  obtain r4 w4 where st: "stop_existing_containers sh (Some (profile a)) None ?w3 = (r4, w4)"
    by (cases "stop_existing_containers sh (Some (profile a)) None ?w3")
  have "fst (stop_existing_containers sh (Some (profile a)) None ?w3) = Inr ()"
    by (rule stop_existing_containers_ok) (simp add: other)
  then have r4: "r4 = Inr ()" using st by simp
  let ?w5 = "w4\<lparr>trace := trace w4 @ [Exec ?chk]\<rparr>"
  have "sh (length (executed w4)) ?chk \<noteq> None" by (rule other) simp
  then have pl: "pull_docker_images sh ?fs True w4 = pull_each sh ?fs ?w5"
    by (rule pull_docker_images_update)
  obtain r6 w6 where pe: "pull_each sh ?fs ?w5 = (r6, w6)" by (cases "pull_each sh ?fs ?w5")
  have u: "update a = True" using assms(3) by simp
  have m: "main sh random_key a w =
             (case r6 of
                Inl e \<Rightarrow> (Inl e, w6)
              | Inr u \<Rightarrow>
                  start_insights_lm sh (Some (name a)) (Some (profile a)) (Some (environment a))
                    (compose_files a) w6)"
    unfolding main_def Let_def using assms(1,2) st r4 pl pe
    by (simp add: u split: sum.split)
  have one: "fst (main sh random_key a w) = Inl CalledProcessError" if "f \<in> set (compose_files a)"
  proof -
    have "f \<in> set ?fs" using that by simp
    then have "fst (pull_each sh ?fs ?w5) = Inl CalledProcessError"
      using pull_each_fails[of f ?fs sh ?w5] sh by simp
    then show ?thesis using m pe by simp
  qed
  have two: "fst (main sh random_key a w) = Inr ()" if nf: "f \<notin> set ?fs"
  proof -
    have "sh n (pull_command g) \<noteq> None" if "g \<in> set ?fs" for g n
      using that nf sh by auto
    then have "fst (pull_each sh ?fs ?w5) = Inr ()" by (rule pull_each_succeeds)
    then have r6: "r6 = Inr ()" using pe by simp
    have "fst (start_insights_lm sh (Some (name a)) (Some (profile a)) (Some (environment a))
                    (compose_files a) w6) = Inr ()"
      by (rule start_insights_lm_ok) (simp add: other)
    then show ?thesis using m r6 by simp
  qed
  show ?thesis using one two by blast
qed

theorem main_missing_overlay_file_witness:
  "\<not> config (default_args\<lparr>compose_files := [''missing.yml''], update := True\<rparr>)
   \<and> fst (prepare_env example_world) = Inr ()
   \<and> \<not> path_exists example_world ''missing.yml''
   \<and> fst (docker_compose (Some ''insights-lm'') (Some ''cpu'') (Some ''private'') [''missing.yml'']
             ''.env'' example_world) =
       fst (docker_compose (Some ''insights-lm'') (Some ''cpu'') (Some ''private'') []
             ''.env'' example_world)
   \<and> fst (main example_shell example_key
            (default_args\<lparr>compose_files := [''missing.yml''], update := True\<rparr>) example_world) =
       Inl CalledProcessError
   \<and> fst (main example_shell example_key (default_args\<lparr>update := True\<rparr>) example_world) = Inr ()"
proof -
  let ?a = "default_args\<lparr>compose_files := [''missing.yml''], update := True\<rparr>"
  let ?b = "default_args\<lparr>update := True\<rparr>"
  have ca: "\<not> config ?a" and cb: "\<not> config ?b" by (simp_all add: default_args_def)
  have ua: "update ?a" and ub: "update ?b" by simp_all
  have f: "fst (prepare_env example_world) = Inr ()" by code_simp
  then have ok: "prepare_env example_world = (Inr (), snd (prepare_env example_world))"
    by (simp add: prod_eq_iff)
  have sh: "(example_shell n cmd = None) = (cmd = pull_command ''missing.yml'')" for n cmd
    by (simp add: example_shell_def)
  have ne: "\<not> path_exists example_world ''missing.yml''" by code_simp
  have dc: "fst (docker_compose (Some ''insights-lm'') (Some ''cpu'') (Some ''private'')
                  [''missing.yml''] ''.env'' example_world) =
            fst (docker_compose (Some ''insights-lm'') (Some ''cpu'') (Some ''private'') []
                  ''.env'' example_world)"
    using ne docker_compose_extra_files[of "Some ''insights-lm''" "Some ''cpu''" "Some ''private''"
        "[''missing.yml'']" "''.env''" example_world]
    by simp
  have one: "fst (main example_shell example_key ?a example_world) = Inl CalledProcessError"
    using main_missing_overlay_file[where random_key = example_key, OF ca ok ua sh] by simp
  have two: "fst (main example_shell example_key ?b example_world) = Inr ()"
    using main_missing_overlay_file[where random_key = example_key, OF cb ok ub sh]
    by (simp add: default_args_def)
  show ?thesis using ca f ne dc one two by blast
qed

end
